(* ===== verification/Prelude.thy ===== *)
theory Prelude
  imports Main "HOL-Library.Word" "HOL-Library.Multiset" "HOL-Library.Char_ord" "HOL-Library.List_Lexorder"
begin

unbundle bit_operations_syntax

text \<open>
  What every component shares: Go values, Go results and Go panics.

  \<^item> A Go \<open>string\<close> or \<open>[]byte\<close> is a list of bytes; a byte is a \<open>char\<close>, so \<open>length\<close> counts bytes
    as Go's \<open>len\<close> does, and the order of \<open>List_Lexorder\<close> over \<open>Char_ord\<close> is Go's order of strings.
  \<^item> A call returns \<open>Ok\<close>, returns a non-nil \<open>error\<close> (\<open>Err\<close>), or does not return because the
    runtime panics (\<open>Panic\<close>): index and slice expressions out of range and nil dereferences are the
    panics this program can raise itself; \<open>LibraryPanic\<close> is one that a package it calls raises.
  \<^item> \<open>int\<close> and \<open>int64\<close> values that can overflow are written with \<open>int64\<close>, which wraps.
\<close>

type_synonym bytes = string
type_synonym u64 = "64 word"

datatype go_panic = IndexOutOfRange | SliceOutOfRange | NilDereference | LibraryPanic

datatype ('e, 'a) result = Ok 'a | Err 'e | Panic go_panic

named_theorems go_simps \<open>evaluation of the Go primitives\<close>

primrec and_then :: "('e, 'a) result \<Rightarrow> ('a \<Rightarrow> ('e, 'b) result) \<Rightarrow> ('e, 'b) result" where
  "and_then (Ok x) f = f x"
| "and_then (Err e) f = Err e"
| "and_then (Panic p) f = Panic p"

lemma and_then_eq_Ok [go_simps]:
  "and_then r f = Ok y \<longleftrightarrow> (\<exists>x. r = Ok x \<and> f x = Ok y)"
  by (cases r) auto

lemma and_then_eq_Panic [go_simps]:
  "and_then r f = Panic p \<longleftrightarrow> r = Panic p \<or> (\<exists>x. r = Ok x \<and> f x = Panic p)"
  by (cases r) auto

primrec map_result :: "('a \<Rightarrow> 'b) \<Rightarrow> ('e, 'a) result \<Rightarrow> ('e, 'b) result" where
  "map_result f (Ok x) = Ok (f x)"
| "map_result f (Err e) = Err e"
| "map_result f (Panic p) = Panic p"

lemma map_result_eq_Ok [go_simps]:
  "map_result f r = Ok y \<longleftrightarrow> (\<exists>x. r = Ok x \<and> f x = y)"
  by (cases r) auto

subsection \<open>64-bit integers\<close>

definition int64 :: "int \<Rightarrow> int" where
  "int64 i = sint (word_of_int i :: u64)"

lemma int64_id [go_simps]:
  assumes "- (2 ^ 63) \<le> i" and "i < 2 ^ 63"
  shows "int64 i = i"
proof -
  have "signed_take_bit 63 i = i"
    using assms by (simp add: signed_take_bit_int_eq_self)
  then show ?thesis by (simp add: int64_def sint_sbintrunc')
qed

lemma int64_bounds: "- (2 ^ 63) \<le> int64 i" "int64 i < 2 ^ 63"
  using sint_greater_eq [of "word_of_int i :: u64"] sint_less [of "word_of_int i :: u64"]
  by (simp_all add: int64_def)

subsection \<open>Slice and index expressions\<close>

text \<open>
  \<open>xs[lo:hi]\<close>. Go checks \<open>0 \<le> lo \<le> hi \<le> len xs\<close> for a string; for a slice the upper limit is its
  capacity. Every use in the program either follows a check against the length or fails for any
  capacity a Go slice can have (see \<open>Envelope\<close>).
\<close>

definition slice :: "'a list \<Rightarrow> int \<Rightarrow> int \<Rightarrow> ('e, 'a list) result" where
  "slice xs lo hi =
     (if 0 \<le> lo \<and> lo \<le> hi \<and> hi \<le> int (length xs)
      then Ok (take (nat (hi - lo)) (drop (nat lo) xs)) else Panic SliceOutOfRange)"

definition slice_from :: "'a list \<Rightarrow> int \<Rightarrow> ('e, 'a list) result" where
  "slice_from xs lo = slice xs lo (int (length xs))"

definition slice_to :: "'a list \<Rightarrow> int \<Rightarrow> ('e, 'a list) result" where
  "slice_to xs hi = slice xs 0 hi"

definition index :: "'a list \<Rightarrow> int \<Rightarrow> ('e, 'a) result" where
  "index xs i = (if 0 \<le> i \<and> i < int (length xs) then Ok (xs ! nat i) else Panic IndexOutOfRange)"

lemma slice_from_Ok [go_simps]:
  "0 \<le> lo \<Longrightarrow> lo \<le> int (length xs) \<Longrightarrow> slice_from xs lo = Ok (drop (nat lo) xs)"
  by (simp add: slice_from_def slice_def nat_diff_distrib)

lemma slice_from_Panic [go_simps]:
  "lo < 0 \<or> int (length xs) < lo \<Longrightarrow> slice_from xs lo = Panic SliceOutOfRange"
  by (auto simp: slice_from_def slice_def)

lemma slice_to_Ok [go_simps]:
  "0 \<le> hi \<Longrightarrow> hi \<le> int (length xs) \<Longrightarrow> slice_to xs hi = Ok (take (nat hi) xs)"
  by (simp add: slice_to_def slice_def)

lemma slice_to_Panic [go_simps]:
  "hi < 0 \<or> int (length xs) < hi \<Longrightarrow> slice_to xs hi = Panic SliceOutOfRange"
  by (auto simp: slice_to_def slice_def)

lemma index_last_snoc [go_simps]: "index (xs @ [x]) (int (length (xs @ [x])) - 1) = Ok x"
  by (simp add: index_def nth_append nat_diff_distrib)

subsection \<open>Lists\<close>

lemma dropWhile_split_unique:
  assumes "\<forall>x \<in> set xs. P x" and "ys = [] \<or> \<not> P (hd ys)"
  shows "dropWhile P (xs @ ys) = ys"
proof -
  have "dropWhile P (xs @ ys) = dropWhile P ys" using assms(1) by (induction xs) auto
  then show ?thesis using assms(2) by (cases ys) auto
qed

lemma sort_eq_of_mset: "sort xs = sort ys" if eq: "mset xs = mset ys"
proof (rule properties_for_sort)
  show "mset (sort ys) = mset xs" using eq by (simp only: mset_sort)
  show "sorted (sort ys)" by (rule sorted_sort)
qed

lemma concat_sort_mset: "mset xs = mset ys \<Longrightarrow> concat (sort xs) = concat (sort ys)"
  by (drule sort_eq_of_mset) (rule arg_cong [of _ _ concat])

end
