(* ===== verification/Regex.thy ===== *)
theory Regex
  imports Prelude
begin

text \<open>
  The part of Go's \<open>regexp\<close> package that the program's seven patterns use. A pattern is matched on
  the bytes of a string rune by rune, as Go does: \<open>next_rune\<close> is \<open>utf8.DecodeRuneInString\<close>, invalid
  bytes included. \<open>rx_run\<close> lists the ways a pattern can match at a position in the order of
  preference of a leftmost-first engine (greedy stars, left alternatives first), \<open>rx_find\<close> takes the
  first one at the leftmost position, and the inductive relation \<open>rx_match\<close> is the declarative
  meaning of a pattern; \<open>rx_run_iff\<close> and \<open>MatchString_iff\<close> show that they agree.

  The patterns repeat single-rune classes only, so \<open>StarC\<close> takes a class.
\<close>

type_synonym rune = nat
type_synonym caps = "(nat \<times> bytes) list"

subsection \<open>Runes\<close>

definition cont_byte :: "nat \<Rightarrow> bool" where
  "cont_byte b \<longleftrightarrow> 128 \<le> b \<and> b \<le> 191"

text \<open>The rune at the front of a string and its width; \<open>(65533, 1)\<close> for an invalid encoding.\<close>

definition DecodeRune :: "nat list \<Rightarrow> rune \<times> nat" where
  "DecodeRune bs =
     (case bs of
        [] \<Rightarrow> (65533, 0)
      | b0 # r0 \<Rightarrow>
          if b0 < 128 then (b0, 1)
          else if 194 \<le> b0 \<and> b0 \<le> 223 then
            (case r0 of
               b1 # _ \<Rightarrow> if cont_byte b1 then ((b0 - 192) * 64 + (b1 - 128), 2) else (65533, 1)
             | [] \<Rightarrow> (65533, 1))
          else if 224 \<le> b0 \<and> b0 \<le> 239 then
            (case r0 of
               b1 # b2 # _ \<Rightarrow>
                 if (if b0 = 224 then 160 else 128) \<le> b1 \<and> b1 \<le> (if b0 = 237 then 159 else 191) \<and> cont_byte b2
                 then ((b0 - 224) * 4096 + (b1 - 128) * 64 + (b2 - 128), 3) else (65533, 1)
             | _ \<Rightarrow> (65533, 1))
          else if 240 \<le> b0 \<and> b0 \<le> 244 then
            (case r0 of
               b1 # b2 # b3 # _ \<Rightarrow>
                 if (if b0 = 240 then 144 else 128) \<le> b1 \<and> b1 \<le> (if b0 = 244 then 143 else 191)
                   \<and> cont_byte b2 \<and> cont_byte b3
                 then ((b0 - 240) * 262144 + (b1 - 128) * 4096 + (b2 - 128) * 64 + (b3 - 128), 4)
                 else (65533, 1)
             | _ \<Rightarrow> (65533, 1))
          else (65533, 1))"

definition next_rune :: "bytes \<Rightarrow> (rune \<times> bytes \<times> bytes) option" where
  "next_rune s =
     (if s = [] then None
      else (let (r, n) = DecodeRune (map of_char (take 4 s)) in Some (r, take n s, drop n s)))"

lemma next_rune_Nil [simp]: "next_rune [] = None"
  by (simp add: next_rune_def)

lemma next_rune_ascii [simp]:
  "(of_char c :: nat) < 128 \<Longrightarrow> next_rune (c # cs) = Some (of_char c, [c], cs)"
  by (simp add: next_rune_def DecodeRune_def)

lemma DecodeRune_width: "bs \<noteq> [] \<Longrightarrow> 0 < snd (DecodeRune bs)"
  by (auto simp: DecodeRune_def split: list.splits if_splits)

lemma next_rune_None [simp]: "next_rune s = None \<longleftrightarrow> s = []"
  by (simp add: next_rune_def split: prod.splits)

lemma next_rune_split: "next_rune s = Some (r, u, v) \<Longrightarrow> u @ v = s \<and> u \<noteq> []"
  using DecodeRune_width [of "map of_char (take 4 s)"]
  by (auto simp: next_rune_def split: prod.splits if_splits)

lemma next_rune_shorter: "next_rune s = Some (r, u, v) \<Longrightarrow> length v < length s"
  using next_rune_split [of s r u v] by (cases u) auto

lemma DecodeRune_small: "fst (DecodeRune bs) < 128 \<Longrightarrow> \<exists>b0 r0. bs = b0 # r0 \<and> b0 < 128"
  by (auto simp: DecodeRune_def cont_byte_def split: list.splits if_splits)

text \<open>A rune below 128 is one byte.\<close>

lemma next_rune_small:
  assumes "next_rune s = Some (r, u, v)" and "r < 128"
  shows "\<exists>c. s = c # v \<and> u = [c] \<and> r = of_char c"
proof -
  have "s \<noteq> []" using assms(1) by auto
  then obtain c cs where s: "s = c # cs" by (cases s) auto
  have "fst (DecodeRune (map of_char (take 4 s))) < 128"
    using assms by (auto simp: next_rune_def split: prod.splits if_splits)
  then have "(of_char c :: nat) < 128" using DecodeRune_small s by fastforce
  then have "next_rune s = Some (of_char c, [c], cs)" by (simp add: s)
  with assms(1) show ?thesis by (simp add: s)
qed

subsection \<open>Patterns and the engine\<close>

datatype rx =
    Eps
  | Bol
  | Eol
  | Cls "rune \<Rightarrow> bool"
  | StarC "rune \<Rightarrow> bool"
  | Seq rx rx
  | Alt rx rx
  | Grp nat rx

function star_run :: "(rune \<Rightarrow> bool) \<Rightarrow> bytes \<Rightarrow> (bytes \<times> bytes) list" where
  "star_run p s =
     (case next_rune s of
        None \<Rightarrow> [([], s)]
      | Some (r, u, v) \<Rightarrow>
          if p r then map (\<lambda>(u', v'). (u @ u', v')) (star_run p v) @ [([], s)] else [([], s)])"
  by pat_completeness auto
termination
  by (relation "measure (\<lambda>(p, s). length s)") (auto dest: next_rune_shorter)

declare star_run.simps [simp del]

text \<open>
  \<open>rx_run r b s\<close>: the matches of \<open>r\<close> at the front of \<open>s\<close>, best first, each as the text taken, the
  text left and the captures; \<open>b\<close> says that \<open>s\<close> begins at the start of the input.
\<close>

primrec rx_run :: "rx \<Rightarrow> bool \<Rightarrow> bytes \<Rightarrow> (bytes \<times> bytes \<times> caps) list" where
  "rx_run Eps b s = [([], s, [])]"
| "rx_run Bol b s = (if b then [([], s, [])] else [])"
| "rx_run Eol b s = (if s = [] then [([], s, [])] else [])"
| "rx_run (Cls p) b s =
     (case next_rune s of None \<Rightarrow> [] | Some (r, u, v) \<Rightarrow> if p r then [(u, v, [])] else [])"
| "rx_run (StarC p) b s = map (\<lambda>(u, v). (u, v, [])) (star_run p s)"
| "rx_run (Seq r1 r2) b s =
     concat (map (\<lambda>(u, v, cs).
       map (\<lambda>(u', v', cs'). (u @ u', v', cs @ cs')) (rx_run r2 (b \<and> u = []) v)) (rx_run r1 b s))"
| "rx_run (Alt r1 r2) b s = rx_run r1 b s @ rx_run r2 b s"
| "rx_run (Grp n r) b s = map (\<lambda>(u, v, cs). (u, v, (n, u) # cs)) (rx_run r b s)"

text \<open>The leftmost match: text before it, the match, text after it, captures.\<close>

function rx_find :: "rx \<Rightarrow> bool \<Rightarrow> bytes \<Rightarrow> (bytes \<times> bytes \<times> bytes \<times> caps) option" where
  "rx_find r b s =
     (case rx_run r b s of
        (u, v, cs) # _ \<Rightarrow> Some ([], u, v, cs)
      | [] \<Rightarrow>
          (case next_rune s of
             None \<Rightarrow> None
           | Some (_, w, s') \<Rightarrow>
               map_option (\<lambda>(pre, m). (w @ pre, m)) (rx_find r (b \<and> w = []) s')))"
  by pat_completeness auto
termination
  by (relation "measure (\<lambda>(r, b, s). length s)") (auto dest: next_rune_shorter)

declare rx_find.simps [simp del]

definition MatchString :: "rx \<Rightarrow> bytes \<Rightarrow> bool" where
  "MatchString r s \<longleftrightarrow> rx_find r True s \<noteq> None"

definition capture :: "caps \<Rightarrow> nat \<Rightarrow> bytes" where
  "capture cs n = (case map_of cs n of Some u \<Rightarrow> u | None \<Rightarrow> [])"

text \<open>The whole match and the \<open>n\<close> groups; nil when there is no match.\<close>

definition FindStringSubmatch :: "rx \<Rightarrow> nat \<Rightarrow> bytes \<Rightarrow> bytes list" where
  "FindStringSubmatch r n s =
     (case rx_find r True s of
        None \<Rightarrow> []
      | Some (_, u, _, cs) \<Rightarrow> u # map (capture cs) [1 ..< Suc n])"

subsection \<open>The meaning of a pattern\<close>

inductive star_match :: "(rune \<Rightarrow> bool) \<Rightarrow> bytes \<Rightarrow> bytes \<Rightarrow> bytes \<Rightarrow> bool" for p where
  star_stop: "star_match p s [] s"
| star_more: "next_rune s = Some (r, u, v) \<Longrightarrow> p r \<Longrightarrow> star_match p v u' v' \<Longrightarrow>
     star_match p s (u @ u') v'"

inductive rx_match :: "rx \<Rightarrow> bool \<Rightarrow> bytes \<Rightarrow> bytes \<Rightarrow> bytes \<Rightarrow> caps \<Rightarrow> bool" where
  m_eps: "rx_match Eps b s [] s []"
| m_bol: "rx_match Bol True s [] s []"
| m_eol: "rx_match Eol b [] [] [] []"
| m_cls: "next_rune s = Some (r, u, v) \<Longrightarrow> p r \<Longrightarrow> rx_match (Cls p) b s u v []"
| m_star: "star_match p s u v \<Longrightarrow> rx_match (StarC p) b s u v []"
| m_seq: "rx_match r1 b s u v cs \<Longrightarrow> rx_match r2 (b \<and> u = []) v u' v' cs' \<Longrightarrow>
     rx_match (Seq r1 r2) b s (u @ u') v' (cs @ cs')"
| m_alt1: "rx_match r1 b s u v cs \<Longrightarrow> rx_match (Alt r1 r2) b s u v cs"
| m_alt2: "rx_match r2 b s u v cs \<Longrightarrow> rx_match (Alt r1 r2) b s u v cs"
| m_grp: "rx_match r b s u v cs \<Longrightarrow> rx_match (Grp n r) b s u v ((n, u) # cs)"

inductive_simps match_Eps [simp]: "rx_match Eps b s u v cs"
inductive_simps match_Bol [simp]: "rx_match Bol b s u v cs"
inductive_simps match_Eol [simp]: "rx_match Eol b s u v cs"
inductive_simps match_Cls [simp]: "rx_match (Cls p) b s u v cs"
inductive_simps match_StarC [simp]: "rx_match (StarC p) b s u v cs"
inductive_simps match_Seq: "rx_match (Seq r1 r2) b s u v cs"
inductive_simps match_Alt [simp]: "rx_match (Alt r1 r2) b s u v cs"
inductive_simps match_Grp [simp]: "rx_match (Grp n r) b s u v cs"

lemma match_Seq_flat:
  "rx_match (Seq r1 r2) b s u v cs \<longleftrightarrow>
     (\<exists>u1 t c1 u2 c2. rx_match r1 b s u1 t c1 \<and> rx_match r2 (b \<and> u1 = []) t u2 v c2 \<and>
        u = u1 @ u2 \<and> cs = c1 @ c2)"
  by (simp only: match_Seq) blast

inductive skips :: "bytes \<Rightarrow> bytes \<Rightarrow> bytes \<Rightarrow> bool" where
  skip_none: "skips s [] s"
| skip_rune: "next_rune s = Some (r, u, v) \<Longrightarrow> skips v pre w \<Longrightarrow> skips s (u @ pre) w"

lemma star_match_split: "star_match p s u v \<Longrightarrow> u @ v = s"
  by (induction rule: star_match.induct) (auto dest!: next_rune_split)

lemma rx_match_split: "rx_match r b s u v cs \<Longrightarrow> u @ v = s"
  by (induction rule: rx_match.induct) (auto dest: next_rune_split star_match_split)

lemma star_run_iff: "(u, v) \<in> set (star_run p s) \<longleftrightarrow> star_match p s u v"
proof (induction p s arbitrary: u v rule: star_run.induct)
  case (1 p s)
  show ?case
  proof (cases "next_rune s")
    case None
    then have "s = []" by simp
    then show ?thesis by (subst star_run.simps, subst star_match.simps) auto
  next
    case (Some a)
    then obtain r w t where a: "next_rune s = Some (r, w, t)" by (cases a) auto
    show ?thesis
      using "1.IH" [OF a] a
      by (auto simp: star_run.simps [of p s] star_match.simps [of p s u v])
  qed
qed

text \<open>The engine finds exactly the matches the pattern means.\<close>

lemma rx_run_iff: "(u, v, cs) \<in> set (rx_run r b s) \<longleftrightarrow> rx_match r b s u v cs"
proof (induction r arbitrary: b s u v cs)
  case (Seq r1 r2)
  show ?case
    by (simp add: match_Seq Seq.IH [symmetric] Bex_def image_iff split_paired_Ex) blast
next
  case (Cls p)
  then show ?case by (cases "next_rune s") auto
next
  case (Grp n r)
  show ?case by (auto simp: Grp.IH [symmetric] image_iff Bex_def split_paired_Ex)
qed (auto simp: star_run_iff)

lemma rx_run_Nil_iff: "rx_run r b s = [] \<longleftrightarrow> (\<forall>u v cs. \<not> rx_match r b s u v cs)"
proof -
  have "rx_run r b s = [] \<longleftrightarrow> (\<forall>m. m \<notin> set (rx_run r b s))" by (cases "rx_run r b s") auto
  also have "\<dots> \<longleftrightarrow> (\<forall>u v cs. \<not> rx_match r b s u v cs)"
    by (simp only: split_paired_All rx_run_iff)
  finally show ?thesis .
qed

inductive_cases skips_NilE: "skips [] pre w"

lemma skips_cases:
  assumes "next_rune s = Some (r, w, t)"
  shows "skips s pre z \<longleftrightarrow> pre = [] \<and> z = s \<or> (\<exists>pre'. pre = w @ pre' \<and> skips t pre' z)"
  using assms by (subst skips.simps) auto

lemma skips_split: "skips s pre w \<Longrightarrow> pre @ w = s"
  by (induction rule: skips.induct) (auto dest: next_rune_split)

lemma rx_find_Some:
  "rx_find r b s = Some (pre, u, v, cs) \<Longrightarrow>
     \<exists>w. skips s pre w \<and> rx_match r (b \<and> pre = []) w u v cs"
proof (induction r b s arbitrary: pre rule: rx_find.induct)
  case (1 r b s)
  show ?case
  proof (cases "rx_run r b s")
    case (Cons m ms)
    with "1.prems" have "pre = []" "(u, v, cs) \<in> set (rx_run r b s)"
      by (auto simp: rx_find.simps [of r b s] split: prod.splits)
    then show ?thesis by (auto simp: rx_run_iff intro: skips.intros)
  next
    case Nil
    with "1.prems" obtain x w t pre' where n: "next_rune s = Some (x, w, t)"
      and f: "rx_find r (b \<and> w = []) t = Some (pre', u, v, cs)" and pre: "pre = w @ pre'"
      by (auto simp: rx_find.simps [of r b s] split: option.splits prod.splits)
    from "1.IH" [OF Nil n refl refl] f obtain z where
      "skips t pre' z" "rx_match r ((b \<and> w = []) \<and> pre' = []) z u v cs" by blast
    then show ?thesis using pre by (auto simp: skips_cases [OF n])
  qed
qed

lemma rx_find_None:
  "rx_find r b s = None \<Longrightarrow> skips s pre w \<Longrightarrow> \<not> rx_match r (b \<and> pre = []) w u v cs"
proof (induction r b s arbitrary: pre rule: rx_find.induct)
  case (1 r b s)
  then have Nil: "rx_run r b s = []"
    by (auto simp: rx_find.simps [of r b s] split: list.splits)
  show ?case
  proof (cases "next_rune s")
    case None
    with "1.prems"(2) have "pre = []" "w = s" by (auto elim: skips_NilE)
    with Nil show ?thesis by (simp add: rx_run_Nil_iff)
  next
    case (Some a)
    then obtain x y t where n: "next_rune s = Some (x, y, t)" by (cases a) auto
    with Nil "1.prems"(1) have f: "rx_find r (b \<and> y = []) t = None"
      by (simp add: rx_find.simps [of r b s])
    from "1.prems"(2) consider "pre = []" "w = s"
      | pre' where "pre = y @ pre'" "skips t pre' w" by (auto simp: skips_cases [OF n])
    then show ?thesis
    proof cases
      case 1
      with Nil show ?thesis by (simp add: rx_run_Nil_iff)
    next
      case 2
      with "1.IH" [OF Nil n refl refl f] show ?thesis by auto
    qed
  qed
qed

theorem MatchString_iff:
  "MatchString r s \<longleftrightarrow> (\<exists>pre w u v cs. skips s pre w \<and> rx_match r (pre = []) w u v cs)"
proof
  assume "MatchString r s"
  then obtain pre u v cs where "rx_find r True s = Some (pre, u, v, cs)"
    by (auto simp: MatchString_def)
  from rx_find_Some [OF this] show "\<exists>pre w u v cs. skips s pre w \<and> rx_match r (pre = []) w u v cs"
    by simp blast
next
  assume "\<exists>pre w u v cs. skips s pre w \<and> rx_match r (pre = []) w u v cs"
  then show "MatchString r s"
    using rx_find_None [of r True s] by (fastforce simp: MatchString_def)
qed

lemma MatchString_anchored:
  "MatchString (Seq Bol r) s \<longleftrightarrow> (\<exists>u v cs. rx_match r True s u v cs)"
  by (fastforce simp: MatchString_iff match_Seq dest: skips_split intro: skips.intros)

subsection \<open>Classes and literals\<close>

text \<open>Perl classes of Go: \<open>\s\<close>, \<open>\d\<close>, \<open>\w\<close>, and \<open>.\<close> without the \<open>s\<close> flag.\<close>

definition rx_space :: "rune \<Rightarrow> bool" where
  "rx_space r \<longleftrightarrow> r \<in> {9, 10, 12, 13, 32}"

definition rx_digit :: "rune \<Rightarrow> bool" where
  "rx_digit r \<longleftrightarrow> 48 \<le> r \<and> r \<le> 57"

definition rx_word :: "rune \<Rightarrow> bool" where
  "rx_word r \<longleftrightarrow> rx_digit r \<or> 65 \<le> r \<and> r \<le> 90 \<or> 97 \<le> r \<and> r \<le> 122 \<or> r = 95"

definition rx_dot :: "rune \<Rightarrow> bool" where
  "rx_dot r \<longleftrightarrow> r \<noteq> 10"

text \<open>
  Case folding under \<open>(?i)\<close>: besides the two cases of a letter, Unicode simple folding identifies
  \<open>s\<close> with U+017F and \<open>k\<close> with U+212A, in literals and in \<open>\w\<close>.
\<close>

definition fold_rune :: "rune \<Rightarrow> rune" where
  "fold_rune r = (if 65 \<le> r \<and> r \<le> 90 then r + 32 else if r = 383 then 115 else if r = 8490 then 107 else r)"

definition rx_word_ci :: "rune \<Rightarrow> bool" where
  "rx_word_ci r \<longleftrightarrow> rx_word (fold_rune r)"

definition Lit :: "string \<Rightarrow> rx" where
  "Lit w = foldr (\<lambda>c. Seq (Cls (\<lambda>r. r = of_char c))) w Eps"

definition LitCi :: "string \<Rightarrow> rx" where
  "LitCi w = foldr (\<lambda>c. Seq (Cls (\<lambda>r. fold_rune r = fold_rune (of_char c)))) w Eps"

definition PlusC :: "(rune \<Rightarrow> bool) \<Rightarrow> rx" where
  "PlusC p = Seq (Cls p) (StarC p)"

definition Opt :: "rx \<Rightarrow> rx" where
  "Opt r = Alt r Eps"

text \<open>What is left of \<open>s\<close> after the runes that spell \<open>w\<close> up to case.\<close>

fun spell_ci :: "string \<Rightarrow> bytes \<Rightarrow> bytes option" where
  "spell_ci [] s = Some s"
| "spell_ci (c # w) s =
     (case next_rune s of
        None \<Rightarrow> None
      | Some (r, _, v) \<Rightarrow> if fold_rune r = fold_rune (of_char c) then spell_ci w v else None)"

lemma spell_ci_split: "spell_ci w s = Some v \<Longrightarrow> \<exists>u. s = u @ v"
proof (induction w arbitrary: s)
  case (Cons c w)
  then obtain r x t where "next_rune s = Some (r, x, t)" and "spell_ci w t = Some v"
    by (auto split: option.splits if_splits)
  with Cons.IH obtain u where "s = x @ t" "t = u @ v" by (auto dest: next_rune_split)
  then have "s = (x @ u) @ v" by simp
  then show ?case by blast
qed simp

lemma match_LitCi [simp]:
  "rx_match (LitCi w) b s u v cs \<longleftrightarrow> spell_ci w s = Some v \<and> u @ v = s \<and> cs = []"
proof (induction w arbitrary: b s u v cs)
  case Nil
  then show ?case by (auto simp: LitCi_def)
next
  case (Cons c w)
  have unf: "LitCi (c # w) = Seq (Cls (\<lambda>r. fold_rune r = fold_rune (of_char c))) (LitCi w)"
    by (simp add: LitCi_def)
  show ?case
  proof (cases "next_rune s")
    case None
    then show ?thesis by (simp add: unf match_Seq)
  next
    case (Some a)
    then obtain r x t where n: "next_rune s = Some (r, x, t)" by (cases a) auto
    then have s: "s = x @ t" by (auto dest: next_rune_split)
    have "rx_match (LitCi (c # w)) b s u v cs \<longleftrightarrow>
        fold_rune r = fold_rune (of_char c) \<and> spell_ci w t = Some v \<and> (\<exists>u'. u = x @ u' \<and> u' @ v = t) \<and> cs = []"
      by (auto simp: unf match_Seq Cons.IH n)
    also have "\<dots> \<longleftrightarrow> spell_ci (c # w) s = Some v \<and> u @ v = s \<and> cs = []"
      using n by (auto simp: s dest: spell_ci_split)
    finally show ?thesis .
  qed
qed

lemma match_Lit [simp]:
  assumes "list_all (\<lambda>c. (of_char c :: nat) < 128) w"
  shows "rx_match (Lit w) b s u v cs \<longleftrightarrow> u = w \<and> s = w @ v \<and> cs = []"
  using assms
proof (induction w arbitrary: b s u v cs)
  case Nil
  then show ?case by (auto simp: Lit_def)
next
  case (Cons c w)
  have unf: "Lit (c # w) = Seq (Cls (\<lambda>r. r = of_char c)) (Lit w)" by (simp add: Lit_def)
  have "next_rune s = Some (of_char c, x, t) \<longleftrightarrow> x = [c] \<and> s = c # t" for x t
    using next_rune_small [of s "of_char c" x t] Cons.prems by auto
  then show ?case using Cons by (auto simp: unf match_Seq)
qed

definition is_space :: "char \<Rightarrow> bool" where
  "is_space c \<longleftrightarrow> rx_space (of_char c)"

lemma rx_space_small: "rx_space r \<Longrightarrow> r < 128"
  by (auto simp: rx_space_def)

lemma star_match_ascii:
  assumes "\<And>r. p r \<Longrightarrow> r < 128"
  shows "star_match p s u v \<longleftrightarrow> s = u @ v \<and> (\<forall>c \<in> set u. p (of_char c))"
proof
  assume "star_match p s u v"
  then show "s = u @ v \<and> (\<forall>c \<in> set u. p (of_char c))"
  proof (induction rule: star_match.induct)
    case (star_more s r u v u' v')
    then have "r < 128" using assms by blast
    with star_more show ?case by (auto dest!: next_rune_small)
  qed simp
next
  assume "s = u @ v \<and> (\<forall>c \<in> set u. p (of_char c))"
  then show "star_match p s u v"
  proof (induction u arbitrary: s)
    case (Cons c u)
    then have "p (of_char c)" by simp
    moreover from assms [OF this] have "next_rune s = Some (of_char c, [c], u @ v)"
      using Cons.prems by simp
    moreover have "star_match p (u @ v) u v" using Cons by simp
    ultimately show ?case using star_more [of s "of_char c" "[c]" "u @ v" p u v] by simp
  qed (simp add: star_stop)
qed

lemma match_PlusC_ascii:
  assumes small: "\<And>r. p r \<Longrightarrow> r < 128"
  shows "rx_match (PlusC p) b s u v cs \<longleftrightarrow> s = u @ v \<and> u \<noteq> [] \<and> (\<forall>c \<in> set u. p (of_char c)) \<and> cs = []"
proof -
  have one: "next_rune s = Some (r, x, t) \<and> p r \<longleftrightarrow> (\<exists>c. r = of_char c \<and> x = [c] \<and> s = c # t \<and> p (of_char c))"
    for r x t
    using next_rune_small [of s r x t] small [of r] by (auto dest: small)
  show ?thesis by (cases u) (auto simp: PlusC_def match_Seq one star_match_ascii [OF small])
qed

lemmas star_match_space = star_match_ascii [of rx_space, OF rx_space_small]

subsection \<open>Patterns that begin with a keyword\<close>

text \<open>
  \<open>^\s*keyword\<close> and then a rune outside \<open>\w\<close>, all under \<open>(?i)\<close>; and the same test written as a
  scanner would: skip the white space, spell the keyword, look at the next rune.
\<close>

definition keyword_rx :: "string \<Rightarrow> rx" where
  "keyword_rx w = Seq Bol (Seq (StarC rx_space) (Seq (LitCi w) (Cls (\<lambda>r. \<not> rx_word_ci r))))"

definition keyword_at :: "string \<Rightarrow> bytes \<Rightarrow> bool" where
  "keyword_at w s =
     (case spell_ci w (dropWhile is_space s) of
        None \<Rightarrow> False
      | Some t \<Rightarrow> (case next_rune t of None \<Rightarrow> False | Some (r, _, _) \<Rightarrow> \<not> rx_word_ci r))"

lemma spell_ci_not_space:
  assumes "spell_ci (c # w) s = Some t" and "\<not> rx_space (fold_rune (of_char c))"
  shows "s \<noteq> [] \<and> \<not> is_space (hd s)"
proof -
  from assms(1) obtain r x y where n: "next_rune s = Some (r, x, y)"
    and r: "fold_rune r = fold_rune (of_char c)"
    by (auto split: option.splits if_splits)
  then obtain d ds where s: "s = d # ds" by (cases s) auto
  have "\<not> rx_space (of_char d)"
  proof
    assume sp: "rx_space (of_char d)"
    then have "next_rune s = Some (of_char d, [d], ds)" by (simp add: s rx_space_small)
    with n r sp have "rx_space (fold_rune (of_char c))"
      by (auto simp: fold_rune_def rx_space_def split: if_splits)
    with assms(2) show False ..
  qed
  then show ?thesis by (simp add: s is_space_def)
qed

lemma skip_space_then_keyword:
  assumes "w \<noteq> []" and "\<not> rx_space (fold_rune (of_char (hd w)))"
  shows "(\<exists>u v. s = u @ v \<and> (\<forall>c \<in> set u. is_space c) \<and> spell_ci w v = Some t)
    \<longleftrightarrow> spell_ci w (dropWhile is_space s) = Some t"
proof
  assume "\<exists>u v. s = u @ v \<and> (\<forall>c \<in> set u. is_space c) \<and> spell_ci w v = Some t"
  then obtain u v where *: "s = u @ v" "\<forall>c \<in> set u. is_space c" "spell_ci w v = Some t" by blast
  obtain c w' where "w = c # w'" using assms(1) by (cases w) auto
  with * assms(2) have "\<not> is_space (hd v)" using spell_ci_not_space by fastforce
  with * show "spell_ci w (dropWhile is_space s) = Some t"
    using dropWhile_split_unique [of u is_space v] by simp
next
  assume "spell_ci w (dropWhile is_space s) = Some t"
  moreover have "s = takeWhile is_space s @ dropWhile is_space s" by simp
  ultimately show "\<exists>u v. s = u @ v \<and> (\<forall>c \<in> set u. is_space c) \<and> spell_ci w v = Some t"
    by (metis set_takeWhileD)
qed

text \<open>Only \<open>^\<close> looks at where the input begins.\<close>

primrec no_bol :: "rx \<Rightarrow> bool" where
  "no_bol Eps = True"
| "no_bol Bol = False"
| "no_bol Eol = True"
| "no_bol (Cls p) = True"
| "no_bol (StarC p) = True"
| "no_bol (Seq r1 r2) = (no_bol r1 \<and> no_bol r2)"
| "no_bol (Alt r1 r2) = (no_bol r1 \<and> no_bol r2)"
| "no_bol (Grp n r) = no_bol r"

lemma rx_match_no_bol: "rx_match r b s u v cs \<Longrightarrow> no_bol r \<Longrightarrow> rx_match r b' s u v cs"
  by (induction arbitrary: b' rule: rx_match.induct) (auto intro: rx_match.intros)

lemma match_space_keyword:
  assumes w: "w \<noteq> []" "\<not> rx_space (fold_rune (of_char (hd w)))" and r: "no_bol r"
  shows "MatchString (Seq Bol (Seq (StarC rx_space) (Seq (LitCi w) r))) s
    \<longleftrightarrow> (\<exists>t u v cs. spell_ci w (dropWhile is_space s) = Some t \<and> rx_match r True t u v cs)"
    (is "?lhs \<longleftrightarrow> ?rhs")
proof
  assume ?lhs
  then obtain u x v t cs b u' v' where "s = u @ x" "\<forall>c \<in> set u. is_space c" "spell_ci w x = Some t"
    and m: "rx_match r b t u' v' cs"
    by (auto simp: MatchString_anchored match_Seq star_match_space is_space_def)
  then have "spell_ci w (dropWhile is_space s) = Some t"
    using skip_space_then_keyword [OF w, of s t] by blast
  with rx_match_no_bol [OF m r] show ?rhs by blast
next
  assume ?rhs
  then obtain t u' v' cs where t: "spell_ci w (dropWhile is_space s) = Some t"
    and m: "rx_match r True t u' v' cs" by blast
  from t obtain u x where "s = u @ x" "\<forall>c \<in> set u. is_space c" and x: "spell_ci w x = Some t"
    using skip_space_then_keyword [OF w, of s t] by blast
  moreover obtain y where "x = y @ t" using spell_ci_split [OF x] by blast
  ultimately show ?lhs
    using rx_match_no_bol [OF m r]
    by (fastforce simp: MatchString_anchored match_Seq star_match_space is_space_def)
qed

lemma keyword_rx_iff:
  assumes "w \<noteq> []" "\<not> rx_space (fold_rune (of_char (hd w)))"
  shows "MatchString (keyword_rx w) s \<longleftrightarrow> keyword_at w s"
  using match_space_keyword [OF assms, of "Cls (\<lambda>r. \<not> rx_word_ci r)" s]
  by (auto simp: keyword_rx_def keyword_at_def split: option.splits)

text \<open>Two keywords with different first letters are never both at the front.\<close>

lemma spell_ci_disjoint:
  "spell_ci (c # w) s = Some t \<Longrightarrow> spell_ci (c' # w') s = Some t' \<Longrightarrow>
     fold_rune (of_char c) = fold_rune (of_char c')"
  by (auto split: option.splits if_splits)

end
