(* ===== verification/Gostrings.thy ===== *)
theory Gostrings
  imports Prelude
begin

text \<open>
  The part of Go's \<open>strings\<close> and \<open>strconv\<close> packages that the program uses: number formatting in a
  base (\<open>FormatUint\<close>, \<open>FormatInt\<close>, \<open>Itoa\<close>), \<open>Atoi\<close>, \<open>strings.Split\<close>, \<open>SplitN\<close> and \<open>Contains\<close>; and
  the interface \<open>key_format\<close> that the cache keys rely on.
\<close>

subsection \<open>Formatting numbers\<close>

definition digit_chars :: string where
  "digit_chars = ''0123456789abcdefghijklmnopqrstuvwxyz''"

definition digit_char :: "nat \<Rightarrow> char" where
  "digit_char d = digit_chars ! d"

fun format_nat :: "nat \<Rightarrow> nat \<Rightarrow> string" where
  "format_nat b n =
     (if b < 2 \<or> n < b then [digit_char n] else format_nat b (n div b) @ [digit_char (n mod b)])"

declare format_nat.simps [simp del]

definition FormatUint :: "u64 \<Rightarrow> nat \<Rightarrow> string" where
  "FormatUint k b = format_nat b (unat k)"

definition FormatInt :: "int \<Rightarrow> string" where
  "FormatInt i = (if i < 0 then CHR ''-'' # format_nat 10 (nat (- i)) else format_nat 10 (nat i))"

definition digit_value :: "char \<Rightarrow> nat" where
  "digit_value c =
     (let v = of_char c in if 48 \<le> v \<and> v \<le> 57 then v - 48 else if 97 \<le> v \<and> v \<le> 122 then v - 87 else 0)"

definition read_nat :: "nat \<Rightarrow> string \<Rightarrow> nat" where
  "read_nat b s = foldl (\<lambda>a c. a * b + digit_value c) 0 s"

lemma nat_less_36_cases:
  assumes "(d::nat) < 36"
  shows "d \<in> {0,1,2,3,4,5,6,7,8,9,10,11,12,13,14,15,16,17,18,19,20,21,22,23,24,25,26,27,28,29,30,31,32,33,34,35}"
  using assms by (simp add: less_Suc_eq numeral_eq_Suc)

lemma digit_value_char [simp]: "d < 36 \<Longrightarrow> digit_value (digit_char d) = d"
  by (drule nat_less_36_cases) (auto simp: digit_char_def digit_chars_def digit_value_def)

lemma digit_char_set: "d < 36 \<Longrightarrow> digit_char d \<in> set digit_chars"
  unfolding digit_char_def by (rule nth_mem) (simp add: digit_chars_def)

lemma read_nat_snoc [simp]: "read_nat b (s @ [c]) = read_nat b s * b + digit_value c"
  by (simp add: read_nat_def)

lemma read_nat_single [simp]: "read_nat b [c] = digit_value c"
  by (simp add: read_nat_def)

lemma read_format_nat:
  assumes "2 \<le> b" and "b \<le> 36"
  shows "read_nat b (format_nat b n) = n"
proof (induction n rule: less_induct)
  case (less n)
  show ?case
  proof (cases "n < b")
    case True
    with assms show ?thesis by (subst format_nat.simps) simp
  next
    case False
    with assms have "n div b < n" by simp
    then have "read_nat b (format_nat b (n div b)) = n div b" by (rule less)
    moreover have "n mod b < 36" using assms mod_less_divisor [of b n] by linarith
    ultimately show ?thesis using False assms by (subst format_nat.simps) simp
  qed
qed

lemma set_format_nat:
  assumes "2 \<le> b" and "b \<le> 36"
  shows "set (format_nat b n) \<subseteq> set digit_chars"
proof (induction n rule: less_induct)
  case (less n)
  show ?case
  proof (cases "n < b")
    case True
    with assms show ?thesis by (subst format_nat.simps) (simp add: digit_char_set)
  next
    case False
    with assms have "n div b < n" by simp
    then have "set (format_nat b (n div b)) \<subseteq> set digit_chars" by (rule less)
    moreover have "n mod b < 36" using assms mod_less_divisor [of b n] by linarith
    ultimately show ?thesis using False assms by (subst format_nat.simps) (simp add: digit_char_set)
  qed
qed

lemma format_nat_ne_Nil [simp]: "format_nat b n \<noteq> []"
  by (subst format_nat.simps) simp

subsection \<open>Reading numbers: \<open>strconv.Atoi\<close>\<close>

definition is_digit :: "char \<Rightarrow> bool" where
  "is_digit c \<longleftrightarrow> 48 \<le> (of_char c :: nat) \<and> (of_char c :: nat) \<le> 57"

definition split_sign :: "string \<Rightarrow> bool \<times> string" where
  "split_sign s =
     (case s of [] \<Rightarrow> (False, [])
      | c # cs \<Rightarrow> if c = CHR ''-'' then (True, cs) else if c = CHR ''+'' then (False, cs) else (False, s))"

definition Atoi :: "string \<Rightarrow> int option" where
  "Atoi s =
     (let (neg, ds) = split_sign s;
          n = int (read_nat 10 ds);
          i = (if neg then - n else n)
      in if ds = [] \<or> \<not> list_all is_digit ds then None
         else if - (2 ^ 63) \<le> i \<and> i < 2 ^ 63 then Some i else None)"

lemma is_digit_not_sign: "is_digit c \<Longrightarrow> c \<noteq> CHR ''-'' \<and> c \<noteq> CHR ''+''"
  by (auto simp: is_digit_def)

lemma Atoi_digits:
  assumes "ds \<noteq> []" and "list_all is_digit ds"
  shows "Atoi ds = (if read_nat 10 ds < 2 ^ 63 then Some (int (read_nat 10 ds)) else None)"
proof -
  obtain c cs where ds: "ds = c # cs" using assms(1) by (cases ds) auto
  then have "split_sign ds = (False, ds)"
    using assms(2) is_digit_not_sign [of c] by (simp add: split_sign_def)
  then show ?thesis using assms by (simp add: Atoi_def)
qed

lemma Atoi_nonneg:
  assumes "list_all is_digit ds" and "Atoi ds = Some i"
  shows "0 \<le> i"
proof (cases "ds = []")
  case True
  with assms(2) show ?thesis by (simp add: Atoi_def split_sign_def)
next
  case False
  with assms show ?thesis by (auto simp: Atoi_digits split: if_splits)
qed

subsection \<open>\<open>strings\<close>: split and search\<close>

text \<open>\<open>strings.Split\<close> with a one-character separator: always at least one piece.\<close>

fun Split :: "string \<Rightarrow> char \<Rightarrow> string list" where
  "Split [] sep = [[]]"
| "Split (c # cs) sep =
     (if c = sep then [] # Split cs sep
      else (case Split cs sep of [] \<Rightarrow> [[c]] | p # ps \<Rightarrow> (c # p) # ps))"

lemma Split_ne_Nil [simp]: "Split s sep \<noteq> []"
  by (induction s) (auto split: list.splits)

lemma Split_no_sep: "sep \<notin> set s \<Longrightarrow> Split s sep = [s]"
  by (induction s) auto

lemma Split_app_sep: "sep \<notin> set s \<Longrightarrow> Split (s @ sep # t) sep = s # Split t sep"
  by (induction s) auto

fun starts_with :: "string \<Rightarrow> string \<Rightarrow> bool" where
  "starts_with s [] = True"
| "starts_with [] (p # ps) = False"
| "starts_with (c # cs) (p # ps) = (c = p \<and> starts_with cs ps)"

lemma starts_with_iff: "starts_with s p \<longleftrightarrow> (\<exists>t. s = p @ t)"
  by (induction s p rule: starts_with.induct) auto

text \<open>\<open>strings.SplitN(s, sep, 2)\<close>: the text before the first \<open>sep\<close> and the text after it.\<close>

fun SplitN2 :: "string \<Rightarrow> string \<Rightarrow> string list" where
  "SplitN2 [] sep = [[]]"
| "SplitN2 (c # cs) sep =
     (if starts_with (c # cs) sep then [[], drop (length sep) (c # cs)]
      else (case SplitN2 cs sep of [] \<Rightarrow> [[c]] | p # ps \<Rightarrow> (c # p) # ps))"

fun Contains :: "string \<Rightarrow> string \<Rightarrow> bool" where
  "Contains [] sub = (sub = [])"
| "Contains (c # cs) sub = (starts_with (c # cs) sub \<or> Contains cs sub)"

lemma Contains_iff: "Contains s sub \<longleftrightarrow> (\<exists>u v. s = u @ sub @ v)"
proof (induction s)
  case Nil
  then show ?case by simp
next
  case (Cons c cs)
  show ?case
  proof
    assume "Contains (c # cs) sub"
    then consider "starts_with (c # cs) sub" | "Contains cs sub" by auto
    then show "\<exists>u v. c # cs = u @ sub @ v"
    proof cases
      case 1
      then obtain t where "c # cs = [] @ sub @ t" by (auto simp: starts_with_iff)
      then show ?thesis by blast
    next
      case 2
      with Cons.IH obtain u v where "cs = u @ sub @ v" by blast
      then have "c # cs = (c # u) @ sub @ v" by simp
      then show ?thesis by blast
    qed
  next
    assume "\<exists>u v. c # cs = u @ sub @ v"
    then obtain u v where eq: "c # cs = u @ sub @ v" by blast
    show "Contains (c # cs) sub"
    proof (cases u)
      case Nil
      with eq have "starts_with (c # cs) sub" by (simp only: starts_with_iff) auto
      then show ?thesis by simp
    next
      case (Cons d u')
      with eq have "cs = u' @ sub @ v" by simp
      with Cons.IH show ?thesis by auto
    qed
  qed
qed

subsection \<open>The interface of the key formats\<close>

text \<open>
  The cache keys are written into Redis keys and response headers. What those uses rely on: the text
  determines the key, and it never holds the separator.
\<close>

locale key_format =
  fixes fmt :: "'k \<Rightarrow> string" and sep :: char
  assumes fmt_inject: "fmt k = fmt k' \<Longrightarrow> k = k'"
    and fmt_no_sep: "sep \<notin> set (fmt k)"
begin

lemma joined_inject:
  assumes "pre @ fmt a @ sep # fmt b = pre @ fmt a' @ sep # fmt b'"
  shows "a = a' \<and> b = b'"
proof -
  have "Split (fmt a @ sep # fmt b) sep = Split (fmt a' @ sep # fmt b') sep"
    using assms by simp
  then have "[fmt a, fmt b] = [fmt a', fmt b']"
    by (simp add: Split_app_sep Split_no_sep fmt_no_sep)
  then show ?thesis by (auto dest: fmt_inject)
qed

lemma joined_split: "Split (fmt a @ sep # fmt b) sep = [fmt a, fmt b]"
  by (simp add: Split_app_sep Split_no_sep fmt_no_sep)

end

lemma FormatUint_36_inject: "FormatUint k 36 = FormatUint k' 36 \<Longrightarrow> k = k'"
  unfolding FormatUint_def
  by (metis read_format_nat le_refl word_unat_eq_iff numeral_le_iff semiring_norm(68) semiring_norm(69) semiring_norm(71))

lemma FormatUint_36_no_colon: "CHR '':'' \<notin> set (FormatUint k 36)"
  using set_format_nat [of 36 "unat k"] by (auto simp: FormatUint_def digit_chars_def)

interpretation uint36: key_format "\<lambda>k. FormatUint k 36" "CHR '':''"
  by unfold_locales (simp_all add: FormatUint_36_inject FormatUint_36_no_colon)

end
