(* ===== verification/Govalues.thy ===== *)
theory Govalues
  imports Gostrings
begin

text \<open>
  Go's \<open>interface{}\<close> values as a JSON decoder builds them (GraphQL variables, JWT claims), and their
  text under \<open>fmt.Sprint\<close> and \<open>%v\<close>. A number is a float64 given by its bits; its shortest decimal
  text is the parameter \<open>ff\<close>, everything around it is modelled. A Go map is an association list with
  one entry per key; \<open>fmt\<close> prints it in the order of its keys.
\<close>

datatype gval =
    GNil
  | GBool bool
  | GFloat u64
  | GStr bytes
  | GArr "gval list"
  | GObj "(bytes \<times> gval) list"

fun join_with :: "bytes \<Rightarrow> bytes list \<Rightarrow> bytes" where
  "join_with sep [] = []"
| "join_with sep [x] = x"
| "join_with sep (x # y # ys) = x @ sep @ join_with sep (y # ys)"

definition print_map :: "(bytes \<times> bytes) list \<Rightarrow> bytes" where
  "print_map kvs = ''map['' @ join_with '' '' (map (\<lambda>(k, v). k @ '':'' @ v) (sort_key fst kvs)) @ '']''"

primrec Sprint :: "(u64 \<Rightarrow> bytes) \<Rightarrow> gval \<Rightarrow> bytes" where
  "Sprint ff GNil = ''<nil>''"
| "Sprint ff (GBool b) = (if b then ''true'' else ''false'')"
| "Sprint ff (GFloat x) = ff x"
| "Sprint ff (GStr s) = s"
| "Sprint ff (GArr vs) = ''['' @ join_with '' '' (map (Sprint ff) vs) @ '']''"
| "Sprint ff (GObj kvs) = print_map (map (map_prod id (Sprint ff)) kvs)"

lemma sort_key_fst_mset:
  assumes "mset xs = mset ys" and "distinct (map fst xs)"
  shows "sort_key fst xs = sort_key fst ys"
proof (rule properties_for_sort_key)
  show "mset (sort_key fst ys) = mset xs" using assms(1) by (simp only: mset_sort)
  show "filter (\<lambda>x. fst k = fst x) (sort_key fst ys) = filter (\<lambda>x. fst k = fst x) xs"
    if k: "k \<in> set (sort_key fst ys)" for k
  proof -
    have "k \<in> set xs" using k assms(1) by (metis set_mset_mset set_sort)
    moreover have "distinct (map fst ys)"
      using assms by (metis mset_eq_imp_distinct_iff mset_map)
    moreover have one: "filter (\<lambda>x. fst k = fst x) zs = [k]" if "k \<in> set zs" "distinct (map fst zs)"
      for zs :: "('a \<times> 'b) list"
      using that
    proof (induction zs)
      case (Cons z zs)
      show ?case
      proof (cases "k = z")
        case True
        with Cons.prems have "\<forall>x \<in> set zs. fst k \<noteq> fst x" by (auto simp: image_iff)
        then have "filter (\<lambda>x. fst k = fst x) zs = []" by (simp add: filter_empty_conv)
        with True show ?thesis by simp
      next
        case False
        with Cons.prems have "k \<in> set zs" "fst k \<noteq> fst z" by (auto simp: image_iff)
        with Cons show ?thesis by simp
      qed
    qed simp
    moreover have "distinct (map fst (sort_key fst ys))"
      using \<open>distinct (map fst ys)\<close> by (metis mset_eq_imp_distinct_iff mset_map mset_sort)
    ultimately show ?thesis using k assms(2) by simp
  qed
  show "sorted (map fst (sort_key fst ys))" by simp
qed

text \<open>The text of a map does not depend on the order in which its entries are listed.\<close>

lemma Sprint_map_order:
  assumes "mset kvs = mset kvs'" and "distinct (map fst kvs)"
  shows "Sprint ff (GObj kvs) = Sprint ff (GObj kvs')"
proof -
  let ?f = "map_prod id (Sprint ff)"
  have "mset (map ?f kvs) = mset (map ?f kvs')" using assms(1) by simp
  moreover have "distinct (map fst (map ?f kvs))" using assms(2) by simp
  ultimately show ?thesis by (simp add: print_map_def sort_key_fst_mset [of "map ?f kvs" "map ?f kvs'"])
qed

end
