(* ===== verification/Gql.thy ===== *)
theory Gql
  imports Regex Govalues
begin

text \<open>
  \<open>src/gql_parser.go\<close>: the request a client posts, the patterns that classify it, and the time to
  live of a cached query. The body parser of Fiber is the parameter \<open>body_parser\<close>.
\<close>

text \<open>An error a handler returns to Fiber: \<open>fiber.NewError(code, message)\<close>, or any other error.\<close>

datatype http_error = FiberError nat string | GoError string

record GraphQLRequest =
  Query :: bytes
  Variables :: "(bytes \<times> gval) list"
  OperationName :: bytes

definition ParseGraphQLRequest ::
  "(bytes \<Rightarrow> string + GraphQLRequest) \<Rightarrow> bytes \<Rightarrow> (http_error, GraphQLRequest) result" where
  "ParseGraphQLRequest body_parser body =
     (case body_parser body of
        Inl e \<Rightarrow> Err (GoError e)
      | Inr req \<Rightarrow>
          if Query req = [] then Err (FiberError 400 ''missing query in request body'') else Ok req)"

definition mutationRegex :: rx where
  "mutationRegex = Seq Bol (Seq (StarC rx_space) (Seq (LitCi ''mutation'') (Cls (\<lambda>r. \<not> rx_word_ci r))))"

definition subscriptionRegex :: rx where
  "subscriptionRegex =
     Seq Bol (Seq (StarC rx_space) (Seq (LitCi ''subscription'') (Cls (\<lambda>r. \<not> rx_word_ci r))))"

definition cachedQueryRegex :: rx where
  "cachedQueryRegex =
     Seq Bol (Seq (StarC rx_space) (Seq (LitCi ''query'') (Seq (PlusC (\<lambda>r. \<not> rx_word_ci r))
       (Seq (StarC rx_word_ci) (Seq (StarC rx_dot) (Seq (StarC rx_space) (LitCi ''@cached'')))))))"

definition cachedParamsRegex :: rx where
  "cachedParamsRegex =
     Seq (Lit ''@cached('') (Seq (Grp 1 (Alt (Lit ''ttl'') (Lit ''refresh''))) (Seq (StarC rx_space)
       (Seq (Lit '':'') (Seq (StarC rx_space) (Seq (Grp 2 (Alt (PlusC rx_digit) (Lit ''true''))) (Lit '')''))))))"

definition IsMutationGraphQLRequest :: "GraphQLRequest \<Rightarrow> bool" where
  "IsMutationGraphQLRequest req = MatchString mutationRegex (Query req)"

definition IsSubscriptionGraphQLRequest :: "GraphQLRequest \<Rightarrow> bool" where
  "IsSubscriptionGraphQLRequest req = MatchString subscriptionRegex (Query req)"

text \<open>\<open>maxTTL\<close> is \<open>viper.GetInt(HASURA_GRAPHQL_CACHE_MAX_ENTRY_TTL)\<close>.\<close>

definition IsCachedQueryGraphQLRequest :: "int \<Rightarrow> GraphQLRequest \<Rightarrow> int" where
  "IsCachedQueryGraphQLRequest maxTTL req =
     (if MatchString cachedQueryRegex (Query req)
      then (let m = FindStringSubmatch cachedParamsRegex 2 (Query req)
            in if 3 \<le> length m
               then if m ! 1 = ''ttl''
                    then (case Atoi (m ! 2) of
                            Some ttl \<Rightarrow> if maxTTL < ttl then maxTTL else ttl
                          | None \<Rightarrow> maxTTL)
                    else if m ! 1 = ''refresh'' \<and> m ! 2 = ''true'' then 0 else maxTTL
               else maxTTL)
      else 0)"

subsection \<open>Classification\<close>

text \<open>The three patterns as scanners: skip white space, spell the keyword, look at what follows.\<close>

lemma IsMutation_keyword: "IsMutationGraphQLRequest req \<longleftrightarrow> keyword_at ''mutation'' (Query req)"
  using keyword_rx_iff [of "''mutation''"]
  by (simp add: IsMutationGraphQLRequest_def mutationRegex_def keyword_rx_def fold_rune_def rx_space_def)

lemma IsSubscription_keyword:
  "IsSubscriptionGraphQLRequest req \<longleftrightarrow> keyword_at ''subscription'' (Query req)"
  using keyword_rx_iff [of "''subscription''"]
  by (simp add: IsSubscriptionGraphQLRequest_def subscriptionRegex_def keyword_rx_def fold_rune_def
      rx_space_def)

lemma cachedQuery_keyword:
  assumes "MatchString cachedQueryRegex s"
  shows "\<exists>t. spell_ci ''query'' (dropWhile is_space s) = Some t"
proof -
  have nb: "no_bol (Seq (PlusC (\<lambda>r. \<not> rx_word_ci r))
       (Seq (StarC rx_word_ci) (Seq (StarC rx_dot) (Seq (StarC rx_space) (LitCi ''@cached'')))))"
    by (simp add: PlusC_def LitCi_def)
  show ?thesis
    using assms match_space_keyword [OF _ _ nb, of "''query''" s]
    by (auto simp: cachedQueryRegex_def fold_rune_def rx_space_def)
qed

lemma cached_is_query:
  "IsCachedQueryGraphQLRequest maxTTL req \<noteq> 0 \<Longrightarrow> MatchString cachedQueryRegex (Query req)"
  by (auto simp: IsCachedQueryGraphQLRequest_def split: if_splits)

lemma keyword_at_spell: "keyword_at w s \<Longrightarrow> \<exists>t. spell_ci w (dropWhile is_space s) = Some t"
  by (auto simp: keyword_at_def split: option.splits)

lemma keywords_disjoint:
  assumes "keyword_at (c # w) s" and "fold_rune (of_char c) \<noteq> fold_rune (of_char c')"
  shows "spell_ci (c' # w') (dropWhile is_space s) \<noteq> Some t" and "\<not> keyword_at (c' # w') s"
  using assms spell_ci_disjoint [of c w "dropWhile is_space s" _ c' w'] keyword_at_spell
  by (metis)+

subsection \<open>The parameters of \<open>@cached\<close>\<close>

text \<open>The key and the value inside \<open>@cached( : )\<close> at the front of a text, read by a scanner.\<close>

definition params_body :: "bytes \<Rightarrow> bytes" where
  "params_body s = takeWhile (\<lambda>c. c \<noteq> CHR '')'') (drop 8 s)"

definition params_key :: "bytes \<Rightarrow> bytes" where
  "params_key s = takeWhile (\<lambda>c. \<not> is_space c \<and> c \<noteq> CHR '':'') (params_body s)"

definition params_value :: "bytes \<Rightarrow> bytes" where
  "params_value s = dropWhile is_space (tl (dropWhile (\<lambda>c. c \<noteq> CHR '':'') (params_body s)))"

lemma is_digit_rx: "rx_digit (of_char c) \<longleftrightarrow> is_digit c"
  by (simp add: rx_digit_def is_digit_def)

lemmas star_match_digit = star_match_ascii [of rx_digit, unfolded is_digit_rx]

lemma rx_digit_small: "rx_digit r \<Longrightarrow> r < 128"
  by (simp add: rx_digit_def)

lemma match_PlusC_digit:
  "rx_match (PlusC rx_digit) b s u v cs \<longleftrightarrow> s = u @ v \<and> u \<noteq> [] \<and> list_all is_digit u \<and> cs = []"
  by (simp add: match_PlusC_ascii [OF rx_digit_small] is_digit_rx list_all_iff)

definition good_key :: "bytes \<Rightarrow> bool" where
  "good_key k \<longleftrightarrow> k = ''ttl'' \<or> k = ''refresh''"

definition good_value :: "bytes \<Rightarrow> bool" where
  "good_value v \<longleftrightarrow> v = ''true'' \<or> v \<noteq> [] \<and> list_all is_digit v"

lemma match_key:
  "rx_match (Alt (Lit ''ttl'') (Lit ''refresh'')) b s u v cs \<longleftrightarrow> good_key u \<and> s = u @ v \<and> cs = []"
  by (auto simp: good_key_def)

lemma match_value:
  "rx_match (Alt (PlusC rx_digit) (Lit ''true'')) b s u v cs \<longleftrightarrow> good_value u \<and> s = u @ v \<and> cs = []"
  by (auto simp: good_value_def match_PlusC_digit)

lemma match_Seq_Lit:
  "list_all (\<lambda>c. (of_char c :: nat) < 128) w \<Longrightarrow>
   rx_match (Seq (Lit w) r) b s u v cs \<longleftrightarrow>
     (\<exists>s' u'. s = w @ s' \<and> u = w @ u' \<and> rx_match r (b \<and> w = []) s' u' v cs)"
  by (simp add: match_Seq_flat) blast

lemma match_Seq_space:
  "rx_match (Seq (StarC rx_space) r) b s u v cs \<longleftrightarrow>
     (\<exists>w s' u'. list_all is_space w \<and> s = w @ s' \<and> u = w @ u' \<and> rx_match r (b \<and> w = []) s' u' v cs)"
  by (simp add: match_Seq_flat star_match_space is_space_def list_all_iff) blast

lemma match_Seq_Grp:
  "rx_match (Seq (Grp n r1) r) b s u v cs \<longleftrightarrow>
     (\<exists>x s' u' cs1 cs'. rx_match r1 b s x s' cs1 \<and> u = x @ u' \<and> cs = (n, x) # cs1 @ cs' \<and>
        rx_match r (b \<and> x = []) s' u' v cs')"
  by (simp only: match_Seq_flat match_Grp) (metis append_Cons)

text \<open>What the parameter pattern matches, from its tail to its front.\<close>

lemma match_value_close:
  "rx_match (Seq (Grp 2 (Alt (PlusC rx_digit) (Lit ''true''))) (Lit '')'')) b s u v cs \<longleftrightarrow>
     (\<exists>x. good_value x \<and> u = x @ '')'' \<and> s = u @ v \<and> cs = [(2, x)])"
  unfolding match_Seq_Grp match_value by auto

lemma match_colon_value:
  "rx_match (Seq (Lit '':'') (Seq (StarC rx_space)
       (Seq (Grp 2 (Alt (PlusC rx_digit) (Lit ''true''))) (Lit '')'')))) b s u v cs \<longleftrightarrow>
     (\<exists>w x. list_all is_space w \<and> good_value x \<and> u = '':'' @ w @ x @ '')'' \<and> s = u @ v \<and> cs = [(2, x)])"
  by (auto simp: match_Seq_Lit match_Seq_space match_value_close)

lemma match_key_space:
  "rx_match (Seq (Grp 1 (Alt (Lit ''ttl'') (Lit ''refresh''))) (Seq (StarC rx_space) r)) b s u v cs \<longleftrightarrow>
     (\<exists>k w u' s' cs'. good_key k \<and> list_all is_space w \<and> u = k @ w @ u' \<and> s = k @ w @ s' \<and>
        cs = (1, k) # cs' \<and> rx_match r (b \<and> k = [] \<and> w = []) s' u' v cs')"
  unfolding match_Seq_Grp match_key match_Seq_space by (simp, blast)

lemma cachedParams_match:
  "rx_match cachedParamsRegex b s u v cs \<longleftrightarrow>
     (\<exists>k w1 w2 x. good_key k \<and> good_value x \<and> list_all is_space w1 \<and> list_all is_space w2 \<and>
        u = ''@cached('' @ k @ w1 @ '':'' @ w2 @ x @ '')'' \<and> s = u @ v \<and> cs = [(1, k), (2, x)])"
proof -
  have ascii: "list_all (\<lambda>c. (of_char c :: nat) < 128) ''@cached(''" by simp
  note unf = cachedParamsRegex_def match_Seq_Lit [OF ascii] match_key_space match_colon_value
  show ?thesis (is "?l \<longleftrightarrow> ?r")
  proof
    assume ?l
    then obtain k w1 w2 x where "good_key k" "good_value x" "list_all is_space w1" "list_all is_space w2"
      "u = ''@cached('' @ k @ w1 @ '':'' @ w2 @ x @ '')''" "s = u @ v" "cs = [(1, k), (2, x)]"
      unfolding unf by auto
    then show ?r by (intro exI conjI)
  next
    assume ?r
    then obtain k w1 w2 x where *: "good_key k" "good_value x" "list_all is_space w1" "list_all is_space w2"
      "u = ''@cached('' @ k @ w1 @ '':'' @ w2 @ x @ '')''" "s = u @ v" "cs = [(1, k), (2, x)]"
      by blast
    show ?l unfolding unf
    proof (intro exI conjI)
      show "good_key k" "list_all is_space w1" "list_all is_space w2" "good_value x" by fact+
      show "u = ''@cached('' @ k @ w1 @ '':'' @ w2 @ x @ '')''" by fact
      show "s = ''@cached('' @ k @ w1 @ '':'' @ w2 @ x @ '')'' @ v" using * by simp
    qed (simp_all add: *)
  qed
qed

lemma good_key_chars: "good_key k \<Longrightarrow> c \<in> set k \<Longrightarrow> c \<noteq> CHR '')'' \<and> c \<noteq> CHR '':'' \<and> \<not> is_space c"
  by (auto simp: good_key_def is_space_def rx_space_def)

lemma good_value_chars: "good_value x \<Longrightarrow> c \<in> set x \<Longrightarrow> c \<noteq> CHR '')'' \<and> \<not> is_space c"
  by (auto simp: good_value_def is_space_def rx_space_def is_digit_def list_all_iff)

lemma space_chars: "list_all is_space w \<Longrightarrow> c \<in> set w \<Longrightarrow> c \<noteq> CHR '')'' \<and> c \<noteq> CHR '':'' \<and> is_space c"
  by (auto simp: is_space_def rx_space_def list_all_iff)

lemma good_value_ne_Nil: "good_value x \<Longrightarrow> x \<noteq> []"
  by (auto simp: good_value_def)

lemma params_scan:
  assumes "good_key k" "good_value x" "list_all is_space w1" "list_all is_space w2"
    and s: "s = ''@cached('' @ k @ w1 @ '':'' @ w2 @ x @ '')'' @ v"
  shows "params_key s = k" and "params_value s = x"
proof -
  have "takeWhile (\<lambda>c. c \<noteq> CHR '')'') ((k @ w1 @ '':'' @ w2 @ x) @ CHR '')'' # v) = k @ w1 @ '':'' @ w2 @ x"
    using good_key_chars [OF assms(1)] good_value_chars [OF assms(2)] space_chars [OF assms(3)]
      space_chars [OF assms(4)]
    by (subst takeWhile_append2) auto
  then have body: "params_body s = k @ w1 @ '':'' @ w2 @ x" by (simp add: params_body_def s)
  have "takeWhile (\<lambda>c. \<not> is_space c \<and> c \<noteq> CHR '':'') (k @ w1 @ '':'' @ w2 @ x) = k"
    using good_key_chars [OF assms(1)] space_chars [OF assms(3)]
    by (subst takeWhile_append2, blast, cases w1) auto
  then show "params_key s = k" by (simp add: params_key_def body)
  have "dropWhile (\<lambda>c. c \<noteq> CHR '':'') ((k @ w1) @ CHR '':'' # w2 @ x) = CHR '':'' # w2 @ x"
    using good_key_chars [OF assms(1)] space_chars [OF assms(3)]
    by (intro dropWhile_split_unique) auto
  moreover have "dropWhile is_space (w2 @ x) = x"
    using good_value_chars [OF assms(2)] space_chars [OF assms(4)] good_value_ne_Nil [OF assms(2)]
    by (intro dropWhile_split_unique) auto
  ultimately show "params_value s = x" by (simp add: params_value_def body)
qed

lemma cachedParams_caps:
  assumes "rx_match cachedParamsRegex b s u v cs"
  shows "cs = [(1, params_key s), (2, params_value s)] \<and> good_key (params_key s) \<and> good_value (params_value s)"
proof -
  from assms obtain k w1 w2 x where "good_key k" "good_value x" "list_all is_space w1" "list_all is_space w2"
    and "s = ''@cached('' @ k @ w1 @ '':'' @ w2 @ x @ '')'' @ v" and cs: "cs = [(1, k), (2, x)]"
    by (auto simp: cachedParams_match)
  then show ?thesis using params_scan by metis
qed

lemma find_params_None_or:
  "FindStringSubmatch cachedParamsRegex 2 s = [] \<or>
     (\<exists>u k x. FindStringSubmatch cachedParamsRegex 2 s = [u, k, x] \<and> good_key k \<and> good_value x)"
proof (cases "rx_find cachedParamsRegex True s")
  case None
  then show ?thesis by (simp add: FindStringSubmatch_def)
next
  case (Some m)
  then obtain pre u v cs where m: "rx_find cachedParamsRegex True s = Some (pre, u, v, cs)"
    by (cases m) auto
  from rx_find_Some [OF this] obtain w where "cs = [(1, params_key w), (2, params_value w)]"
    "good_key (params_key w)" "good_value (params_value w)"
    using cachedParams_caps by blast
  then show ?thesis using m by (simp add: FindStringSubmatch_def capture_def upt_rec)
qed

text \<open>The first \<open>@cached( : )\<close> of the text is the one that counts.\<close>

lemma rx_find_skips:
  assumes "skips s pre w" and "\<And>c cs b'. c \<in> set pre \<Longrightarrow> rx_run r b' (c # cs) = []"
  shows "rx_find r b s = map_option (\<lambda>(p, m). (pre @ p, m)) (rx_find r (b \<and> pre = []) w)"
  using assms
proof (induction arbitrary: b rule: skips.induct)
  case (skip_none s)
  then show ?case by (simp add: option.map_ident case_prod_unfold)
next
  case (skip_rune s r' u v pre w)
  then obtain c cs where s: "s = c # cs" and "c \<in> set u"
    using next_rune_split [of s r' u v] by (cases u) auto
  with skip_rune.prems have run: "rx_run r b s = []" by simp
  have u: "u \<noteq> []" using skip_rune.hyps(1) next_rune_split by blast
  have "rx_find r b s = map_option (\<lambda>(p, m). (u @ p, m)) (rx_find r False v)"
    using u by (simp add: rx_find.simps [of r b s] run skip_rune.hyps(1))
  also have "rx_find r False v = map_option (\<lambda>(p, m). (pre @ p, m)) (rx_find r False w)"
    using skip_rune by simp
  finally show ?case using u by (simp add: option.map_comp comp_def case_prod_unfold)
qed

lemma find_params:
  assumes "good_key k" "good_value x" "list_all is_space w1" "list_all is_space w2"
    and w: "w = ''@cached('' @ k @ w1 @ '':'' @ w2 @ x @ '')'' @ post"
    and "skips s pre w" "CHR ''@'' \<notin> set pre"
  shows "\<exists>u. FindStringSubmatch cachedParamsRegex 2 s = [u, k, x]"
proof -
  have run: "rx_run cachedParamsRegex b' (c # cs) = []" if "c \<in> set pre" for b' c cs
    using that assms(7) by (auto simp: rx_run_Nil_iff cachedParams_match)
  have "rx_match cachedParamsRegex b w (''@cached('' @ k @ w1 @ '':'' @ w2 @ x @ '')'') post [(1, k), (2, x)]" for b
    using assms(1-5) unfolding cachedParams_match by force
  then have "rx_run cachedParamsRegex b w \<noteq> []" for b by (auto simp: rx_run_Nil_iff)
  then obtain u v cs ms where run_w: "rx_run cachedParamsRegex (pre = []) w = (u, v, cs) # ms"
    by (cases "rx_run cachedParamsRegex (pre = []) w") auto
  then have "rx_match cachedParamsRegex (pre = []) w u v cs" by (simp flip: rx_run_iff)
  then have "cs = [(1, k), (2, x)]"
    using cachedParams_caps [of "pre = []" w u v cs] params_scan [OF assms(1-4) w] by simp
  moreover have "rx_find cachedParamsRegex True s = Some (pre, u, v, cs)"
    using rx_find_skips [OF assms(6) run, of True] run_w by (simp add: rx_find.simps [of _ _ w])
  ultimately show ?thesis by (simp add: FindStringSubmatch_def capture_def upt_rec)
qed

text \<open>
  The directive on the line that names the query: after the keyword comes a rune outside \<open>\w\<close>, then
  anything but a line break, then \<open>@cached\<close>.
\<close>

lemma cachedQuery_line:
  assumes t: "spell_ci ''query'' (dropWhile is_space s) = Some (c # line @ ''@cached'' @ rest)"
    and c: "(of_char c :: nat) < 128" "\<not> rx_word_ci (of_char c)"
    and line: "\<forall>d \<in> set line. (of_char d :: nat) < 128 \<and> of_char d \<noteq> (10 :: nat)"
  shows "MatchString cachedQueryRegex s"
proof -
  let ?p = "\<lambda>r. \<not> rx_word_ci r" and ?w = "line @ ''@cached'' @ rest"
  let ?r4 = "Seq (StarC rx_space) (LitCi ''@cached'')"
  let ?r3 = "Seq (StarC rx_dot) ?r4"
  let ?r2 = "Seq (StarC rx_word_ci) ?r3"
  have dots: "star_match rx_dot ?w line (''@cached'' @ rest)"
    using line
  proof (induction line)
    case (Cons d ds)
    have "star_match rx_dot ((d # ds) @ ''@cached'' @ rest) ([d] @ ds) (''@cached'' @ rest)"
    proof (rule star_more)
      show "next_rune ((d # ds) @ ''@cached'' @ rest) = Some (of_char d, [d], ds @ ''@cached'' @ rest)"
        and "rx_dot (of_char d)" using Cons.prems by (simp_all add: rx_dot_def)
      show "star_match rx_dot (ds @ ''@cached'' @ rest) ds (''@cached'' @ rest)" using Cons by simp
    qed
    then show ?case by simp
  qed (simp add: star_stop)
  have lit: "rx_match (LitCi ''@cached'') b (''@cached'' @ rest) ''@cached'' rest []" for b by simp
  have "rx_match ?r4 b (''@cached'' @ rest) ([] @ ''@cached'') rest ([] @ [])" for b
    by (rule m_seq [OF m_star [OF star_stop] lit])
  then have "rx_match ?r3 b ?w (line @ ([] @ ''@cached'')) rest ([] @ [] @ [])" for b
    by (rule m_seq [OF m_star [OF dots]])
  then have tail: "rx_match ?r2 b ?w ([] @ line @ ([] @ ''@cached'')) rest ([] @ [] @ [] @ [])" for b
    by (rule m_seq [OF m_star [OF star_stop]])
  have "next_rune (c # ?w) = Some (of_char c, [c], ?w)" using c(1) by simp
  then have head: "rx_match (PlusC ?p) b (c # ?w) ([c] @ []) ?w ([] @ [])" for b
    unfolding PlusC_def by (rule m_seq [OF m_cls m_star [OF star_stop]]) (rule c(2))
  have "\<exists>u cs. rx_match (Seq (PlusC ?p) ?r2) True (c # ?w) u rest cs"
    using m_seq [OF head tail] by blast
  moreover have "no_bol (Seq (PlusC ?p) ?r2)" by (simp add: PlusC_def LitCi_def)
  ultimately show ?thesis
    using match_space_keyword [of "''query''" "Seq (PlusC ?p) ?r2" s] t
    by (auto simp: cachedQueryRegex_def fold_rune_def rx_space_def)
qed

lemma IsCached_params:
  assumes "MatchString cachedQueryRegex (Query req)"
    and "good_key k" "good_value x" "list_all is_space w1" "list_all is_space w2"
    and "Query req = pre @ w" "w = ''@cached('' @ k @ w1 @ '':'' @ w2 @ x @ '')'' @ post"
    and "skips (Query req) pre w" "CHR ''@'' \<notin> set pre"
  shows "IsCachedQueryGraphQLRequest maxTTL req =
    (if k = ''ttl'' then (case Atoi x of Some ttl \<Rightarrow> min maxTTL ttl | None \<Rightarrow> maxTTL)
     else if x = ''true'' then 0 else maxTTL)"
proof -
  from find_params [OF assms(2-5,7-9)] obtain u
    where "FindStringSubmatch cachedParamsRegex 2 (Query req) = [u, k, x]" ..
  then show ?thesis
    using assms(1,2) by (auto simp: IsCachedQueryGraphQLRequest_def good_key_def min_def split: option.splits)
qed

lemma skips_ascii: "\<forall>c \<in> set pre. (of_char c :: nat) < 128 \<Longrightarrow> skips (pre @ w) pre w"
proof (induction pre)
  case (Cons c pre)
  then have "next_rune ((c # pre) @ w) = Some (of_char c, [c], pre @ w)" by simp
  from skip_rune [OF this] Cons show ?case by simp
qed (simp add: skip_none)

lemma Atoi_good_value: "good_value x \<Longrightarrow> Atoi x = Some i \<Longrightarrow> 0 \<le> i"
  by (auto simp: good_value_def Atoi_nonneg) (auto simp: Atoi_def split_sign_def is_digit_def)

lemma cached_line_example:
  "MatchString cachedQueryRegex (''query Q '' @ ''@cached'' @ rest)"
proof (rule cachedQuery_line)
  show "spell_ci ''query'' (dropWhile is_space (''query Q '' @ ''@cached'' @ rest)) =
      Some (CHR '' '' # ''Q '' @ ''@cached'' @ rest)"
    by (simp add: is_space_def rx_space_def fold_rune_def)
  show "\<not> rx_word_ci (of_char CHR '' '')"
    by (simp add: rx_word_ci_def rx_word_def rx_digit_def fold_rune_def)
qed simp_all

lemma cached_example_value:
  "IsCachedQueryGraphQLRequest 3600
     \<lparr>Query = ''query Q @cached(ttl:60)'', Variables = [], OperationName = []\<rparr> = 60"
proof -
  let ?req = "\<lparr>Query = ''query Q @cached(ttl:60)'', Variables = [], OperationName = []\<rparr>"
  have "IsCachedQueryGraphQLRequest 3600 ?req =
      (if ''ttl'' = ''ttl'' then (case Atoi ''60'' of Some ttl \<Rightarrow> min 3600 ttl | None \<Rightarrow> 3600)
       else if ''60'' = ''true'' then 0 else 3600)"
  proof (rule IsCached_params)
    show "MatchString cachedQueryRegex (Query ?req)"
      using cached_line_example [of "''(ttl:60)''"] by simp
    show "Query ?req = ''query Q '' @ ''@cached(ttl:60)''" by simp
    show "''@cached(ttl:60)'' = ''@cached('' @ ''ttl'' @ [] @ '':'' @ [] @ ''60'' @ '')'' @ []" by simp
    show "skips (Query ?req) ''query Q '' ''@cached(ttl:60)''"
      using skips_ascii [of "''query Q ''" "''@cached(ttl:60)''"] by simp
  qed (simp_all add: good_key_def good_value_def is_digit_def)
  moreover have "read_nat 10 ''60'' = 60" by (simp add: read_nat_def digit_value_def)
  ultimately show ?thesis by (simp add: Atoi_digits is_digit_def)
qed

lemma cached_example_nonzero:
  "IsCachedQueryGraphQLRequest 3600
     \<lparr>Query = ''query Q @cached(ttl:60)'', Variables = [], OperationName = []\<rparr> \<noteq> 0"
  by (simp add: cached_example_value)

subsection \<open>Properties\<close>

text \<open>C25. Reading the first word: a request counts as a mutation (as a subscription) exactly when its
  text, after white space, spells that keyword up to case and goes on with a rune that is no word
  character.\<close>

theorem classified_by_first_word:
  "(IsMutationGraphQLRequest req \<longleftrightarrow> keyword_at ''mutation'' (Query req)) \<and>
   (IsSubscriptionGraphQLRequest req \<longleftrightarrow> keyword_at ''subscription'' (Query req))"
  by (simp add: IsMutation_keyword IsSubscription_keyword)

text \<open>A request is of one kind only: never a mutation and a subscription, and a request with a
  cache time to live is neither, whatever the maximum is.\<close>

theorem request_kinds_exclusive:
  "\<not> (IsMutationGraphQLRequest req \<and> IsSubscriptionGraphQLRequest req) \<and>
   (IsCachedQueryGraphQLRequest maxTTL req \<noteq> 0 \<longrightarrow>
      \<not> IsMutationGraphQLRequest req \<and> \<not> IsSubscriptionGraphQLRequest req)"
proof -
  have k: "fold_rune (of_char CHR ''m'') \<noteq> fold_rune (of_char CHR ''s'')"
    "fold_rune (of_char CHR ''m'') \<noteq> fold_rune (of_char CHR ''q'')"
    "fold_rune (of_char CHR ''s'') \<noteq> fold_rune (of_char CHR ''q'')"
    by (simp_all add: fold_rune_def)
  have "\<not> (keyword_at ''mutation'' s \<and> keyword_at ''subscription'' s)" for s
    using keywords_disjoint(2) [OF _ k(1)] by blast
  moreover have "\<not> keyword_at ''mutation'' s \<and> \<not> keyword_at ''subscription'' s"
    if "MatchString cachedQueryRegex s" for s
    using cachedQuery_keyword [OF that] keywords_disjoint(1) [OF _ k(2)] keywords_disjoint(1) [OF _ k(3)]
    by blast
  ultimately show ?thesis
    using cached_is_query by (simp add: IsMutation_keyword IsSubscription_keyword)
qed

theorem request_kinds_exclusive_witness:
  "\<not> IsMutationGraphQLRequest \<lparr>Query = ''query Q @cached(ttl:60)'', Variables = [], OperationName = []\<rparr>"
proof -
  let ?req = "\<lparr>Query = ''query Q @cached(ttl:60)'', Variables = [], OperationName = []\<rparr>"
  have "IsCachedQueryGraphQLRequest 3600 ?req \<noteq> 0" by (rule cached_example_nonzero)
  with request_kinds_exclusive [of ?req 3600] show ?thesis by blast
qed

text \<open>C34. The time to live of a request lies between 0 and the configured maximum.\<close>

theorem cache_ttl_bounds:
  assumes "0 \<le> maxTTL"
  shows "0 \<le> IsCachedQueryGraphQLRequest maxTTL req \<and> IsCachedQueryGraphQLRequest maxTTL req \<le> maxTTL"
  using find_params_None_or [of "Query req"]
proof
  assume "FindStringSubmatch cachedParamsRegex 2 (Query req) = []"
  with assms show ?thesis by (simp add: IsCachedQueryGraphQLRequest_def)
next
  assume "\<exists>u k x. FindStringSubmatch cachedParamsRegex 2 (Query req) = [u, k, x] \<and> good_key k \<and> good_value x"
  then obtain u k x where "FindStringSubmatch cachedParamsRegex 2 (Query req) = [u, k, x]" "good_value x"
    by blast
  with assms show ?thesis
    by (auto simp: IsCachedQueryGraphQLRequest_def Let_def dest: Atoi_good_value split: option.splits)
qed

theorem cache_ttl_bounds_witness:
  "0 \<le> IsCachedQueryGraphQLRequest 3600 \<lparr>Query = ''query Q @cached { a }'', Variables = [], OperationName = []\<rparr>"
  using cache_ttl_bounds [of 3600] by simp

text \<open>C33. A directive \<open>@cached(ttl: N)\<close> asks for \<open>N\<close> seconds and gets no more than the maximum. The
  directive may have white space around the colon and stands anywhere on the first line of the query;
  the text before it holds no other \<open>@\<close>.\<close>

theorem cached_ttl_value:
  assumes "MatchString cachedQueryRegex (Query req)"
    and "Query req = pre @ w" and "w = ''@cached(ttl'' @ w1 @ '':'' @ w2 @ ds @ '')'' @ post"
    and "ds \<noteq> []" and "list_all is_digit ds" and "list_all is_space w1" and "list_all is_space w2"
    and "skips (Query req) pre w" and "CHR ''@'' \<notin> set pre" and "maxTTL < 2 ^ 63"
  shows "IsCachedQueryGraphQLRequest maxTTL req = min maxTTL (int (read_nat 10 ds))"
proof -
  have "good_key ''ttl''" "good_value ds" using assms(4,5) by (simp_all add: good_key_def good_value_def)
  from IsCached_params [OF assms(1) this assms(6,7,2) _ assms(8,9)] assms(3)
  have "IsCachedQueryGraphQLRequest maxTTL req =
      (case Atoi ds of Some ttl \<Rightarrow> min maxTTL ttl | None \<Rightarrow> maxTTL)" by simp
  then show ?thesis using assms(4,5,10) by (simp add: Atoi_digits)
qed

theorem cached_ttl_value_witness:
  "IsCachedQueryGraphQLRequest 3600
     \<lparr>Query = ''query Q @cached(ttl: 60) { a }'', Variables = [], OperationName = []\<rparr> = 60"
proof -
  let ?req = "\<lparr>Query = ''query Q @cached(ttl: 60) { a }'', Variables = [], OperationName = []\<rparr>"
  have "IsCachedQueryGraphQLRequest 3600 ?req = min 3600 (int (read_nat 10 ''60''))"
  proof (rule cached_ttl_value)
    show "MatchString cachedQueryRegex (Query ?req)"
      using cached_line_example [of "''(ttl: 60) { a }''"] by simp
    show "Query ?req = ''query Q '' @ ''@cached(ttl: 60) { a }''" by simp
    show "''@cached(ttl: 60) { a }'' = ''@cached(ttl'' @ [] @ '':'' @ '' '' @ ''60'' @ '')'' @ '' { a }''" by simp
    show "skips (Query ?req) ''query Q '' ''@cached(ttl: 60) { a }''"
      using skips_ascii [of "''query Q ''" "''@cached(ttl: 60) { a }''"] by simp
  qed (simp_all add: is_digit_def is_space_def rx_space_def)
  then show ?thesis by (simp add: read_nat_def digit_value_def)
qed

text \<open>A directive \<open>@cached(refresh: true)\<close> turns caching off for the request: the time to live is 0,
  so the answer is neither read from the cache nor stored.\<close>

theorem cached_refresh_is_uncached:
  assumes "MatchString cachedQueryRegex (Query req)"
    and "Query req = pre @ w" and "w = ''@cached(refresh'' @ w1 @ '':'' @ w2 @ ''true)'' @ post"
    and "list_all is_space w1" and "list_all is_space w2"
    and "skips (Query req) pre w" and "CHR ''@'' \<notin> set pre"
  shows "IsCachedQueryGraphQLRequest maxTTL req = 0"
proof -
  have "good_key ''refresh''" "good_value ''true''" by (simp_all add: good_key_def good_value_def)
  from IsCached_params [OF assms(1) this assms(4,5,2) _ assms(6,7)] assms(3) show ?thesis by simp
qed

theorem cached_refresh_is_uncached_witness:
  "IsCachedQueryGraphQLRequest 3600
     \<lparr>Query = ''query Q @cached(refresh: true) { a }'', Variables = [], OperationName = []\<rparr> = 0"
proof -
  let ?req = "\<lparr>Query = ''query Q @cached(refresh: true) { a }'', Variables = [], OperationName = []\<rparr>"
  show ?thesis
  proof (rule cached_refresh_is_uncached)
    show "MatchString cachedQueryRegex (Query ?req)"
      using cached_line_example [of "''(refresh: true) { a }''"] by simp
    show "Query ?req = ''query Q '' @ ''@cached(refresh: true) { a }''" by simp
    show "''@cached(refresh: true) { a }'' = ''@cached(refresh'' @ [] @ '':'' @ '' '' @ ''true)'' @ '' { a }''" by simp
    show "skips (Query ?req) ''query Q '' ''@cached(refresh: true) { a }''"
      using skips_ascii [of "''query Q ''" "''@cached(refresh: true) { a }''"] by simp
  qed (simp_all add: is_space_def rx_space_def)
qed

end
