(* ===== verification/Fnv.thy ===== *)
theory Fnv
  imports Prelude
begin

text \<open>
  \<open>hash/fnv.New64a\<close>: the 64-bit FNV-1a hash, a state that every \<open>Write\<close> folds more bytes into and
  \<open>Sum64\<close> reads. The interface \<open>stream_hash\<close> is what the cache key relies on; \<open>fnv\<close> interprets it.
\<close>

locale stream_hash =
  fixes feed :: "'h \<Rightarrow> bytes \<Rightarrow> 'h"
  assumes feed_Nil: "feed h [] = h"
    and feed_append: "feed h (s @ t) = feed (feed h s) t"
begin

lemma feed_all: "foldl feed h ss = feed h (concat ss)"
  by (induction ss arbitrary: h) (simp_all add: feed_Nil feed_append)

lemma feed_same_text: "concat ss = concat ts \<Longrightarrow> foldl feed h ss = foldl feed h ts"
  by (simp add: feed_all)

end

text \<open>Hashes whose state is never forgotten: the same text written to two states keeps them apart.\<close>

locale reversible_hash = stream_hash +
  assumes feed_single_inject: "feed h [c] = feed h' [c] \<Longrightarrow> h = h'"
begin

lemma feed_inject: "feed h s = feed h' s \<Longrightarrow> h = h'"
proof (induction s rule: rev_induct)
  case (snoc c s)
  then show ?case by (auto simp: feed_append dest: feed_single_inject)
qed (simp add: feed_Nil)

lemma feed_eq_iff: "feed h s = feed h' s \<longleftrightarrow> h = h'"
  by (auto dest: feed_inject)

end

definition New64a :: u64 where
  "New64a = 14695981039346656037"

definition fnv_prime :: u64 where
  "fnv_prime = 1099511628211"

definition fnv_byte :: "u64 \<Rightarrow> char \<Rightarrow> u64" where
  "fnv_byte h c = (h XOR word_of_nat (of_char c)) * fnv_prime"

definition fnv_Write :: "u64 \<Rightarrow> bytes \<Rightarrow> u64" where
  "fnv_Write h s = foldl fnv_byte h s"

definition Sum64 :: "u64 \<Rightarrow> u64" where
  "Sum64 h = h"

text \<open>The FNV prime is odd, so multiplying by it can be undone modulo \<open>2 ^ 64\<close>.\<close>

lemma fnv_prime_inverse: "fnv_prime * 14886173955864302971 = 1"
  by (simp add: fnv_prime_def)

lemma fnv_byte_inject: "fnv_byte h c = fnv_byte h' c \<Longrightarrow> h = h'"
proof -
  assume "fnv_byte h c = fnv_byte h' c"
  then have "(h XOR word_of_nat (of_char c)) * (fnv_prime * 14886173955864302971) =
      (h' XOR word_of_nat (of_char c)) * (fnv_prime * 14886173955864302971)"
    by (simp add: fnv_byte_def flip: mult.assoc)
  then have "h XOR word_of_nat (of_char c) = h' XOR word_of_nat (of_char c)"
    by (simp add: fnv_prime_inverse)
  then have "(h XOR word_of_nat (of_char c)) XOR word_of_nat (of_char c) =
      (h' XOR word_of_nat (of_char c)) XOR word_of_nat (of_char c)" by simp
  then show ?thesis by (simp add: xor.assoc)
qed

interpretation fnv: reversible_hash fnv_Write
  by unfold_locales (auto simp: fnv_Write_def dest: fnv_byte_inject)

end
