(* ===== verification/CacheKey.thy ===== *)
theory CacheKey
  imports Gql Fnv
begin

text \<open>
  The cache key of a request: \<open>CalculateCacheKey\<close> and the key formats of \<open>src/query_cache.go\<close>, and the
  token reader of \<open>src/jwt_auth.go\<close>. The JSON decoder and the JWT parser are parameters. A Go map
  (the headers, the claims) is a list in the order in which one run iterates over it.
\<close>

type_synonym claims = "(bytes \<times> gval) list"

subsection \<open>\<open>src/jwt_auth.go\<close>\<close>

record JwtHeader =
  header_type :: bytes

record JwtAuthParser =
  jwt_type :: bytes
  jwt_key :: bytes
  jwt_header :: JwtHeader

text \<open>\<open>unmarshal\<close> is \<open>json.Unmarshal\<close> into an empty configuration: the error, and the configuration as
  the call leaves it. The error is printed only.\<close>

definition ReadHasuraGraphqlJwtSecretConfig ::
  "(bytes \<Rightarrow> JwtAuthParser \<Rightarrow> string option \<times> JwtAuthParser) \<Rightarrow> bytes \<Rightarrow> JwtAuthParser" where
  "ReadHasuraGraphqlJwtSecretConfig unmarshal jwtConfigString =
     snd (unmarshal jwtConfigString
       \<lparr>jwt_type = [], jwt_key = [], jwt_header = \<lparr>header_type = []\<rparr>\<rparr>)"

text \<open>\<open>parse_unverified\<close> is \<open>ParseUnverified\<close>: an error, or the claims if they are a \<open>MapClaims\<close>. A nil
  map of claims is an empty one.\<close>

definition ParseWithoutVerifyJwt ::
  "(bytes \<Rightarrow> string + claims option) \<Rightarrow> bytes \<Rightarrow> (string, claims) result" where
  "ParseWithoutVerifyJwt parse_unverified tokenString =
     (case parse_unverified tokenString of
        Inl err \<Rightarrow> Err err
      | Inr (Some claims) \<Rightarrow> Ok claims
      | Inr None \<Rightarrow> Ok [])"

subsection \<open>The headers that count\<close>

fun Alts :: "rx list \<Rightarrow> rx" where
  "Alts [] = Cls (\<lambda>_. False)"
| "Alts [r] = r"
| "Alts (r # r' # rs) = Alt r (Alts (r' # rs))"

definition notCacheHeaders :: "string list" where
  "notCacheHeaders =
     [''Host'', ''Connection'', ''X-Forwarded-For'', ''X-Request-ID'', ''User-Agent'', ''Content-Length'',
      ''Content-Type'', ''X-Envoy-External-Address'', ''X-Envoy-Expected-Rq-Timeout-Ms'']"

definition notCacheHeaderRegex :: rx where
  "notCacheHeaderRegex = Seq Bol (Seq (Grp 1 (Alts (map LitCi notCacheHeaders))) Eol)"

text \<open>The claims without the timestamps and the id of the token.\<close>

definition cache_claims :: "claims \<Rightarrow> claims" where
  "cache_claims cs = filter (\<lambda>(k, _). k \<notin> {''exp'', ''nbf'', ''iat'', ''jti''}) cs"

definition claim_line :: "(u64 \<Rightarrow> bytes) \<Rightarrow> bytes \<Rightarrow> bytes \<times> gval \<Rightarrow> bytes" where
  "claim_line ff k c = k @ '':jwt.Claims<'' @ fst c @ '':'' @ Sprint ff (snd c) @ ''>''"

text \<open>The lines one header value adds: the body of the inner loop.\<close>

definition header_entries ::
  "JwtAuthParser \<Rightarrow> (bytes \<Rightarrow> string + claims option) \<Rightarrow> (u64 \<Rightarrow> bytes) \<Rightarrow> bytes \<Rightarrow> bytes \<Rightarrow>
     (http_error, bytes list) result" where
  "header_entries cfg parse_unverified ff k v =
     (if MatchString notCacheHeaderRegex k then Ok []
      else if k = header_type (jwt_header cfg) \<or> k = ''Authorization''
      then and_then (slice_to v 7) (\<lambda>scheme.
             if scheme = ''Bearer ''
             then and_then (slice_from v 7) (\<lambda>tokenString.
                    case ParseWithoutVerifyJwt parse_unverified tokenString of
                      Ok claims \<Rightarrow> Ok (map (claim_line ff k) (cache_claims claims))
                    | _ \<Rightarrow> Ok [k @ '':'' @ v])
             else Ok [k @ '':'' @ v])
      else Ok [k @ '':'' @ v])"

primrec collect_headers :: "('a \<Rightarrow> ('e, bytes list) result) \<Rightarrow> 'a list \<Rightarrow> ('e, bytes list) result" where
  "collect_headers f [] = Ok []"
| "collect_headers f (x # xs) =
     and_then (f x) (\<lambda>ls. and_then (collect_headers f xs) (\<lambda>ls'. Ok (ls @ ls')))"

definition header_values :: "(bytes \<times> bytes list) list \<Rightarrow> (bytes \<times> bytes) list" where
  "header_values hs = concat (map (\<lambda>(k, vList). map (\<lambda>v. (k, v)) vList) hs)"

text \<open>\<open>CalculateCacheKey\<close>: the family key and the cache key of a request, or the panic of \<open>v[:7]\<close>.\<close>

definition CalculateCacheKey ::
  "JwtAuthParser \<Rightarrow> (bytes \<Rightarrow> string + claims option) \<Rightarrow> (u64 \<Rightarrow> bytes) \<Rightarrow>
     (bytes \<times> bytes list) list \<Rightarrow> GraphQLRequest \<Rightarrow> (http_error, u64 \<times> u64) result" where
  "CalculateCacheKey cfg parse_unverified ff reqHeaders graphqlReq =
     (let h = fnv_Write New64a (Query graphqlReq);
          h = fnv_Write h (OperationName graphqlReq)
      in and_then (collect_headers (\<lambda>(k, v). header_entries cfg parse_unverified ff k v)
                    (header_values reqHeaders)) (\<lambda>headers.
           let h = foldl fnv_Write h (sort headers);
               familyCacheKey = Sum64 h;
               h = fnv_Write h (Sprint ff (GObj (Variables graphqlReq)));
               cacheKey = Sum64 h
           in Ok (familyCacheKey, cacheKey)))"

subsection \<open>The key formats\<close>

definition FormatFamilyKey :: "u64 \<Rightarrow> string" where
  "FormatFamilyKey familyKey = FormatUint familyKey 36"

definition FormatCacheKey :: "u64 \<Rightarrow> string" where
  "FormatCacheKey cacheKey = FormatUint cacheKey 36"

definition CreateRedisKey :: "u64 \<Rightarrow> u64 \<Rightarrow> string" where
  "CreateRedisKey familyKey cacheKey =
     ''graphql-engine-plus:'' @ FormatFamilyKey familyKey @ '':'' @ FormatCacheKey cacheKey"

subsection \<open>What the header loop computes\<close>

lemma match_Alts:
  "rx_match (Alts rs) b s u v cs \<longleftrightarrow> (\<exists>r \<in> set rs. rx_match r b s u v cs)"
  by (induction rs rule: Alts.induct) auto

lemma notCacheHeader_iff:
  "MatchString notCacheHeaderRegex k \<longleftrightarrow> (\<exists>w \<in> set notCacheHeaders. spell_ci w k = Some [])"
  by (auto simp: notCacheHeaderRegex_def MatchString_anchored match_Seq_flat match_Alts)

definition bearer_header :: "JwtAuthParser \<Rightarrow> bytes \<Rightarrow> bool" where
  "bearer_header cfg k \<longleftrightarrow>
     \<not> MatchString notCacheHeaderRegex k \<and> (k = header_type (jwt_header cfg) \<or> k = ''Authorization'')"

definition header_lines ::
  "JwtAuthParser \<Rightarrow> (bytes \<Rightarrow> string + claims option) \<Rightarrow> (u64 \<Rightarrow> bytes) \<Rightarrow> bytes \<times> bytes \<Rightarrow> bytes list" where
  "header_lines cfg p ff x =
     (let (k, v) = x
      in if MatchString notCacheHeaderRegex k then []
         else if bearer_header cfg k \<and> take 7 v = ''Bearer ''
         then (case p (drop 7 v) of
                 Inl _ \<Rightarrow> [k @ '':'' @ v]
               | Inr None \<Rightarrow> []
               | Inr (Some claims) \<Rightarrow> map (claim_line ff k) (cache_claims claims))
         else [k @ '':'' @ v])"

definition header_panics :: "JwtAuthParser \<Rightarrow> bytes \<times> bytes \<Rightarrow> bool" where
  "header_panics cfg x \<longleftrightarrow> bearer_header cfg (fst x) \<and> length (snd x) < 7"

lemma header_entries_eq:
  "header_entries cfg p ff k v =
     (if header_panics cfg (k, v) then Panic SliceOutOfRange else Ok (header_lines cfg p ff (k, v)))"
proof (cases "length v < 7")
  case True
  then have "take 7 v \<noteq> ''Bearer ''" by (auto dest: arg_cong [of _ _ length])
  with True show ?thesis
    by (auto simp: header_entries_def header_panics_def bearer_header_def header_lines_def slice_to_Panic)
next
  case False
  then show ?thesis
    by (auto simp: header_entries_def header_panics_def bearer_header_def header_lines_def slice_to_Ok
        slice_from_Ok ParseWithoutVerifyJwt_def cache_claims_def split: sum.splits option.splits)
qed

lemma collect_headers_eq:
  "collect_headers (\<lambda>(k, v). header_entries cfg p ff k v) xs =
     (if \<exists>x \<in> set xs. header_panics cfg x then Panic SliceOutOfRange
      else Ok (concat (map (header_lines cfg p ff) xs)))"
  by (induction xs) (auto simp: header_entries_eq)

text \<open>The keys in one formula: the hash of the text, the sorted lines and the printed variables.\<close>

definition family_text ::
  "JwtAuthParser \<Rightarrow> (bytes \<Rightarrow> string + claims option) \<Rightarrow> (u64 \<Rightarrow> bytes) \<Rightarrow>
     (bytes \<times> bytes list) list \<Rightarrow> GraphQLRequest \<Rightarrow> bytes" where
  "family_text cfg p ff hs req =
     Query req @ OperationName req @
     concat (sort (concat (map (header_lines cfg p ff) (header_values hs))))"

lemma CalculateCacheKey_eq:
  "CalculateCacheKey cfg p ff hs req =
     (if \<exists>x \<in> set (header_values hs). header_panics cfg x then Panic SliceOutOfRange
      else Ok (fnv_Write New64a (family_text cfg p ff hs req),
               fnv_Write New64a (family_text cfg p ff hs req @ Sprint ff (GObj (Variables req)))))"
  by (simp add: CalculateCacheKey_def collect_headers_eq Sum64_def Let_def family_text_def
      fnv.feed_all fnv.feed_append)

subsection \<open>Order of headers and claims\<close>

text \<open>Two answers of the JWT parser that differ in the order of the claims only.\<close>

fun same_claims :: "string + claims option \<Rightarrow> string + claims option \<Rightarrow> bool" where
  "same_claims (Inl _) (Inl _) = True"
| "same_claims (Inr None) (Inr None) = True"
| "same_claims (Inr (Some cs)) (Inr (Some cs')) = (mset cs = mset cs')"
| "same_claims _ _ = False"

fun_cases same_claims_InlE: "same_claims (Inl e) y"
fun_cases same_claims_NoneE: "same_claims (Inr None) y"
fun_cases same_claims_SomeE: "same_claims (Inr (Some cs)) y"

lemma mset_cache_claims: "mset cs = mset cs' \<Longrightarrow> mset (cache_claims cs) = mset (cache_claims cs')"
  by (simp add: cache_claims_def)

lemma header_lines_same_claims:
  assumes "same_claims (p (drop 7 (snd x))) (p' (drop 7 (snd x)))"
  shows "mset (header_lines cfg p ff x) = mset (header_lines cfg p' ff x)"
proof (cases "p (drop 7 (snd x))")
  case (Inl e)
  with assms show ?thesis
    by (auto simp: header_lines_def split: prod.splits elim!: same_claims_InlE)
next
  case (Inr o')
  then show ?thesis
    using assms
    by (cases o') (auto simp: header_lines_def split: prod.splits elim!: same_claims_NoneE same_claims_SomeE
        dest: mset_cache_claims)
qed

lemma mset_concat_map: "mset (concat (map f xs)) = (\<Sum>x \<in># mset xs. mset (f x))"
  by (induction xs) simp_all

lemma family_text_mset:
  assumes "mset (header_values hs) = mset (header_values hs')"
    and "\<And>x. x \<in> set (header_values hs) \<Longrightarrow> mset (header_lines cfg p ff x) = mset (header_lines cfg p' ff x)"
  shows "family_text cfg p ff hs req = family_text cfg p' ff hs' req"
proof -
  have "mset (concat (map (header_lines cfg p ff) (header_values hs)))
      = (\<Sum>x \<in># mset (header_values hs). mset (header_lines cfg p' ff x))"
    unfolding mset_concat_map by (rule arg_cong [of _ _ sum_mset], rule image_mset_cong) (simp add: assms(2))
  also have "\<dots> = mset (concat (map (header_lines cfg p' ff) (header_values hs')))"
    by (simp only: mset_concat_map assms(1))
  finally have "concat (sort (concat (map (header_lines cfg p ff) (header_values hs)))) =
      concat (sort (concat (map (header_lines cfg p' ff) (header_values hs'))))"
    by (rule concat_sort_mset)
  then show ?thesis by (simp only: family_text_def)
qed

text \<open>C14. The keys do not depend on the order in which Go iterates over the headers, over the values of a
  header or over the claims of a token: one request has one pair of keys.\<close>

theorem cache_key_order_independent:
  assumes "mset (header_values hs) = mset (header_values hs')" and "\<And>t. same_claims (p t) (p' t)"
  shows "CalculateCacheKey cfg p ff hs req = CalculateCacheKey cfg p' ff hs' req"
proof -
  have "set (header_values hs) = set (header_values hs')" using assms(1) by (rule mset_eq_setD)
  moreover have "family_text cfg p ff hs req = family_text cfg p' ff hs' req"
    using assms(1) by (rule family_text_mset) (rule header_lines_same_claims, rule assms(2))
  ultimately show ?thesis by (simp add: CalculateCacheKey_eq)
qed

theorem cache_key_order_independent_witness:
  "CalculateCacheKey \<lparr>jwt_type = [], jwt_key = [], jwt_header = \<lparr>header_type = []\<rparr>\<rparr> (\<lambda>_. Inr (Some [(''sub'', GStr ''u1''), (''role'', GStr ''user'')])) (\<lambda>_. ''0'')
     [(''Authorization'', [''Bearer t'']), (''X-A'', [''1'', ''2''])] \<lparr>Query = ''query { a }'', Variables = [], OperationName = []\<rparr> =
   CalculateCacheKey \<lparr>jwt_type = [], jwt_key = [], jwt_header = \<lparr>header_type = []\<rparr>\<rparr> (\<lambda>_. Inr (Some [(''role'', GStr ''user''), (''sub'', GStr ''u1'')])) (\<lambda>_. ''0'')
     [(''X-A'', [''2'', ''1'']), (''Authorization'', [''Bearer t''])] \<lparr>Query = ''query { a }'', Variables = [], OperationName = []\<rparr>"
proof (rule cache_key_order_independent)
  show "mset (header_values [(''Authorization'', [''Bearer t'']), (''X-A'', [''1'', ''2''])]) =
      mset (header_values [(''X-A'', [''2'', ''1'']), (''Authorization'', [''Bearer t''])])"
    by (simp add: header_values_def)
qed (simp add: add_mset_commute)

text \<open>Transport headers (\<open>Host\<close>, \<open>Connection\<close>, \<open>User-Agent\<close> and the others of the pattern, in any
  case) have no influence on the keys.\<close>

theorem cache_key_ignores_transport_headers:
  "CalculateCacheKey cfg p ff (filter (\<lambda>(k, _). \<not> MatchString notCacheHeaderRegex k) hs) req =
   CalculateCacheKey cfg p ff hs req"
proof -
  let ?keep = "\<lambda>(k :: bytes, v :: bytes). \<not> MatchString notCacheHeaderRegex k"
  have vals: "header_values (filter (\<lambda>(k, _). \<not> MatchString notCacheHeaderRegex k) hs) =
      filter ?keep (header_values hs)"
    by (induction hs) (auto simp: header_values_def filter_map comp_def)
  have "concat (map (header_lines cfg p ff) (filter ?keep xs)) = concat (map (header_lines cfg p ff) xs)" for xs
    by (induction xs) (auto simp: header_lines_def)
  moreover have "(\<exists>x \<in> set (filter ?keep xs). header_panics cfg x) \<longleftrightarrow> (\<exists>x \<in> set xs. header_panics cfg x)" for xs
    by (induction xs) (auto simp: header_panics_def bearer_header_def)
  ultimately show ?thesis unfolding CalculateCacheKey_eq family_text_def vals by presburger
qed

text \<open>C29. Two bearer tokens whose claims agree up to \<open>exp\<close>, \<open>nbf\<close>, \<open>iat\<close> and \<open>jti\<close> give the same keys,
  whatever their signatures: a renewed token still finds the answers cached under the old one, and so
  does an expired or a forged one.\<close>

theorem cache_key_ignores_token_lifetime:
  assumes "p tok = Inr (Some cs)" and "p tok' = Inr (Some cs')"
    and "mset (cache_claims cs) = mset (cache_claims cs')"
  shows "CalculateCacheKey cfg p ff (hs @ (''Authorization'', [''Bearer '' @ tok]) # hs') req =
    CalculateCacheKey cfg p ff (hs @ (''Authorization'', [''Bearer '' @ tok']) # hs') req"
proof -
  let ?x = "(''Authorization'', ''Bearer '' @ tok)" and ?x' = "(''Authorization'', ''Bearer '' @ tok')"
  have vals: "header_values (hs @ (''Authorization'', [v]) # hs') =
      header_values hs @ (''Authorization'', v) # header_values hs'" for v
    by (simp add: header_values_def)
  have "mset (map (claim_line ff ''Authorization'') (cache_claims cs)) =
      mset (map (claim_line ff ''Authorization'') (cache_claims cs'))"
    using assms(3) by simp
  then have "mset (header_lines cfg p ff ?x) = mset (header_lines cfg p ff ?x')"
    using assms(1,2) by (simp add: header_lines_def bearer_header_def)
  then have "mset (concat (map (header_lines cfg p ff) (header_values hs @ ?x # header_values hs'))) =
      mset (concat (map (header_lines cfg p ff) (header_values hs @ ?x' # header_values hs')))"
    by simp
  then have "sort (concat (map (header_lines cfg p ff) (header_values hs @ ?x # header_values hs'))) =
      sort (concat (map (header_lines cfg p ff) (header_values hs @ ?x' # header_values hs')))"
    by (rule sort_eq_of_mset)
  moreover have "(\<exists>x \<in> set (header_values hs @ ?x # header_values hs'). header_panics cfg x) \<longleftrightarrow>
      (\<exists>x \<in> set (header_values hs @ ?x' # header_values hs'). header_panics cfg x)"
    by (simp add: header_panics_def)
  ultimately show ?thesis unfolding CalculateCacheKey_eq family_text_def vals by presburger
qed

theorem cache_key_ignores_token_lifetime_witness:
  "CalculateCacheKey \<lparr>jwt_type = [], jwt_key = [], jwt_header = \<lparr>header_type = []\<rparr>\<rparr>
      (\<lambda>t. Inr (Some [(''sub'', GStr ''u1''), (''exp'', GFloat (if t = ''old'' then 1 else 2))])) (\<lambda>_. ''0'')
      [(''Authorization'', [''Bearer old''])] \<lparr>Query = ''query { a }'', Variables = [], OperationName = []\<rparr> =
   CalculateCacheKey \<lparr>jwt_type = [], jwt_key = [], jwt_header = \<lparr>header_type = []\<rparr>\<rparr>
      (\<lambda>t. Inr (Some [(''sub'', GStr ''u1''), (''exp'', GFloat (if t = ''old'' then 1 else 2))])) (\<lambda>_. ''0'')
      [(''Authorization'', [''Bearer new''])] \<lparr>Query = ''query { a }'', Variables = [], OperationName = []\<rparr>"
  using cache_key_ignores_token_lifetime
    [of "\<lambda>t. Inr (Some [(''sub'', GStr ''u1''), (''exp'', GFloat (if t = ''old'' then 1 else 2))])" "''old''"
      "[(''sub'', GStr ''u1''), (''exp'', GFloat 1)]" "''new''" "[(''sub'', GStr ''u1''), (''exp'', GFloat 2)]"
      "\<lparr>jwt_type = [], jwt_key = [], jwt_header = \<lparr>header_type = []\<rparr>\<rparr>" "\<lambda>_. ''0''" "[]" "[]"
      "\<lparr>Query = ''query { a }'', Variables = [], OperationName = []\<rparr>"]
  by (simp add: cache_claims_def)

subsection \<open>Panics and collisions\<close>

text \<open>C31. The only way not to get keys is the panic of \<open>v[:7]\<close>, and it happens exactly when some value of
  the \<open>Authorization\<close> header (or of the configured token header) is shorter than 7 bytes.\<close>

theorem cache_key_panics_iff:
  "CalculateCacheKey cfg p ff hs req = Panic pn \<longleftrightarrow>
     pn = SliceOutOfRange \<and>
     (\<exists>k vs v. (k, vs) \<in> set hs \<and> v \<in> set vs \<and> length v < 7 \<and> \<not> MatchString notCacheHeaderRegex k \<and>
        (k = ''Authorization'' \<or> k = header_type (jwt_header cfg)))"
proof -
  have "(\<exists>x \<in> set (header_values hs). header_panics cfg x) \<longleftrightarrow>
      (\<exists>k vs v. (k, vs) \<in> set hs \<and> v \<in> set vs \<and> length v < 7 \<and> \<not> MatchString notCacheHeaderRegex k \<and>
        (k = ''Authorization'' \<or> k = header_type (jwt_header cfg)))"
    by (fastforce simp: header_values_def header_panics_def bearer_header_def)
  then show ?thesis by (auto simp: CalculateCacheKey_eq)
qed

text \<open>C39. Different requests can share their keys, under any headers: the variables \<open>{"a": "1 b:2"}\<close> and
  \<open>{"a": "1", "b": "2"}\<close> print to the same text, and nothing separates the query from the operation
  name. The second request is then answered with what was cached for the first.\<close>

theorem cache_key_confuses_requests:
  "CalculateCacheKey cfg p ff hs
     \<lparr>Query = q, Variables = [(''a'', GStr ''1 b:2'')], OperationName = op\<rparr> =
   CalculateCacheKey cfg p ff hs
     \<lparr>Query = q, Variables = [(''a'', GStr ''1''), (''b'', GStr ''2'')], OperationName = op\<rparr> \<and>
   CalculateCacheKey cfg p ff hs \<lparr>Query = q @ r, Variables = vs, OperationName = op\<rparr> =
   CalculateCacheKey cfg p ff hs \<lparr>Query = q, Variables = vs, OperationName = r @ op\<rparr>"
  by (simp add: CalculateCacheKey_eq family_text_def print_map_def)

text \<open>C30. The family key ignores the variables, and among requests with the same variables the cache key
  tells apart exactly what the family key tells apart: going on to hash the variables loses nothing.\<close>

theorem cache_key_refines_family:
  assumes "CalculateCacheKey cfg p ff hs req = Ok (family, key)"
    and "CalculateCacheKey cfg p ff hs' req' = Ok (family', key')"
  shows "map_result fst (CalculateCacheKey cfg p ff hs (req\<lparr>Variables := vs\<rparr>)) = Ok family \<and>
    (Variables req = Variables req' \<longrightarrow> (key = key' \<longleftrightarrow> family = family'))"
  using assms by (auto simp: CalculateCacheKey_eq family_text_def fnv.feed_append fnv.feed_eq_iff split: if_splits)

theorem cache_key_refines_family_witness:
  "\<exists>f k. CalculateCacheKey \<lparr>jwt_type = [], jwt_key = [], jwt_header = \<lparr>header_type = []\<rparr>\<rparr> (\<lambda>_. Inl []) (\<lambda>_. ''0'')
      [] \<lparr>Query = ''query { a }'', Variables = [], OperationName = []\<rparr> = Ok (f, k) \<and>
    map_result fst (CalculateCacheKey \<lparr>jwt_type = [], jwt_key = [], jwt_header = \<lparr>header_type = []\<rparr>\<rparr> (\<lambda>_. Inl [])
      (\<lambda>_. ''0'') [] \<lparr>Query = ''query { a }'', Variables = [(''a'', GBool True)], OperationName = []\<rparr>) = Ok f"
proof -
  obtain f k where fk: "CalculateCacheKey \<lparr>jwt_type = [], jwt_key = [], jwt_header = \<lparr>header_type = []\<rparr>\<rparr>
      (\<lambda>_. Inl []) (\<lambda>_. ''0'') [] \<lparr>Query = ''query { a }'', Variables = [], OperationName = []\<rparr> = Ok (f, k)"
    by (simp add: CalculateCacheKey_eq header_values_def)
  from cache_key_refines_family [OF fk fk, of "[(''a'', GBool True)]"] fk show ?thesis by auto
qed

text \<open>The Redis key determines the two keys it is made of, and splitting it at the colons gives back
  their texts.\<close>

theorem redis_key_roundtrip:
  "(CreateRedisKey f c = CreateRedisKey f' c' \<longleftrightarrow> f = f' \<and> c = c') \<and>
   Split (CreateRedisKey f c) (CHR '':'') = [''graphql-engine-plus'', FormatFamilyKey f, FormatCacheKey c]"
  using uint36.joined_inject [of "''graphql-engine-plus:''" f c f' c'] uint36.joined_split [of f c]
  by (auto simp: CreateRedisKey_def FormatFamilyKey_def FormatCacheKey_def)

end
