(* ===== verification/Cache_Client.thy ===== *)
theory Cache_Client
  imports Regex Gostrings
begin

text \<open>
  \<open>RedisCacheClient\<close> of \<open>src/cache_service.go\<close>: \<open>Get\<close>, \<open>Set\<close>, \<open>Close\<close> and the groupcache getter with its
  wait loop. Redis, groupcache, the clock and the contexts are outside the program: they are one
  abstract world \<open>'w\<close> and the record \<open>cache_ops\<close> of the calls the code makes on it, each returning its
  answer and the world after the call. Durations and instants are in nanoseconds, as in Go; an absent
  instant is the zero \<open>time.Time\<close>, which groupcache reads as "never expires". Two readings of the clock with no call in between are one reading. Tracing spans and log lines
  are left out.
\<close>

datatype redis_error = RedisNil | RedisError string

datatype cache_error =
    InvalidTTL int
  | RedisFailure redis_error
  | GroupcacheFailure string
  | ErrNotFound string
  | ContextError string
  | SinkError string

record pipe_reply =
  r_get :: "redis_error + bytes"
  r_ttl :: int
  r_setnx :: bool

record 'w cache_ops =
  redis_Set :: "string \<Rightarrow> bytes \<Rightarrow> int \<Rightarrow> 'w \<Rightarrow> redis_error option \<times> 'w"
  reader_Get :: "string \<Rightarrow> 'w \<Rightarrow> (redis_error + bytes) \<times> 'w"
  redis_SRem :: "string \<Rightarrow> string \<Rightarrow> 'w \<Rightarrow> redis_error option \<times> 'w"
  group_Get :: "string \<Rightarrow> 'w \<Rightarrow> (cache_error + bytes) \<times> 'w"
  group_Set :: "string \<Rightarrow> bytes \<Rightarrow> int option \<Rightarrow> 'w \<Rightarrow> string option \<times> 'w"
  redis_Close :: "'w \<Rightarrow> redis_error option \<times> 'w"
  reader_Close :: "'w \<Rightarrow> redis_error option \<times> 'w"
  server_Shutdown :: "'w \<Rightarrow> string option \<times> 'w"
  pipe_writer :: "string \<Rightarrow> (string \<times> int \<times> int) option \<Rightarrow> 'w \<Rightarrow> pipe_reply \<times> 'w"
  pipe_reader :: "string \<Rightarrow> 'w \<Rightarrow> pipe_reply \<times> 'w"
  reader_GetInt64 :: "string \<Rightarrow> 'w \<Rightarrow> (redis_error + int) \<times> 'w"
  sink_SetBytes :: "bytes \<Rightarrow> int option \<Rightarrow> 'w \<Rightarrow> string option \<times> 'w"
  time_Now :: "'w \<Rightarrow> int"
  time_Sleep :: "int \<Rightarrow> 'w \<Rightarrow> 'w"
  ctx_Err :: "'w \<Rightarrow> string option"

record cache_client =
  has_groupcache :: bool
  groupcacheServerUrl :: string
  nodeUrlRegex :: rx

definition GroupCacheName :: string where
  "GroupCacheName = ''rediscaches''"

definition GroupCacheClusterNodesUrlKey :: string where
  "GroupCacheClusterNodesUrlKey = GroupCacheName @ ''.groupcache.cluster''"

definition Second :: int where "Second = 1000000000"
definition Millisecond :: int where "Millisecond = 1000000"

definition FindString :: "rx \<Rightarrow> bytes \<Rightarrow> bytes" where
  "FindString r s = (case rx_find r True s of None \<Rightarrow> [] | Some (_, u, _, _) \<Rightarrow> u)"

subsection \<open>\<open>Get\<close> and \<open>Set\<close>\<close>

definition RedisCacheClient_Get ::
  "'w cache_ops \<Rightarrow> cache_client \<Rightarrow> string \<Rightarrow> 'w \<Rightarrow> (cache_error + bytes) \<times> 'w" where
  "RedisCacheClient_Get ops client key w =
     (if has_groupcache client
      then (case group_Get ops key w of
              (Inl err, w') \<Rightarrow> (Inl err, w')
            | (Inr cacheData, w') \<Rightarrow> (Inr cacheData, w'))
      else (case reader_Get ops key w of
              (Inl err, w') \<Rightarrow> (Inl (RedisFailure err), w')
            | (Inr cacheData, w') \<Rightarrow> (Inr cacheData, w')))"

text \<open>What \<open>Set\<close> does when groupcache reports an error: find the address of the failed node in the
  message and drop it from the cluster set.\<close>

definition drop_failed_node :: "'w cache_ops \<Rightarrow> cache_client \<Rightarrow> string \<Rightarrow> 'w \<Rightarrow> 'w" where
  "drop_failed_node ops client msg w =
     (let failedNodeAddr = FindString (nodeUrlRegex client) msg
      in if failedNodeAddr \<noteq> []
         then snd (redis_SRem ops GroupCacheClusterNodesUrlKey (''http://'' @ failedNodeAddr) w)
         else w)"

definition RedisCacheClient_Set ::
  "'w cache_ops \<Rightarrow> cache_client \<Rightarrow> string \<Rightarrow> bytes \<Rightarrow> int \<Rightarrow> 'w \<Rightarrow> cache_error option \<times> 'w" where
  "RedisCacheClient_Set ops client key val ttl w =
     (if \<not> (ttl = -1 \<or> ttl > 0) then (Some (InvalidTTL ttl), w)
      else (let expiration = (if ttl > 0 then int64 (ttl * Second) else 0)
            in case redis_Set ops key val expiration w of
                 (Some err, w1) \<Rightarrow> (Some (RedisFailure err), w1)
               | (None, w1) \<Rightarrow>
                   if has_groupcache client
                   then (let expire = (if ttl > 0 then Some (time_Now ops w1 + int64 (ttl * Second)) else None)
                         in case group_Set ops key val expire w1 of
                              (Some msg, w2) \<Rightarrow> (None, drop_failed_node ops client msg w2)
                            | (None, w2) \<Rightarrow> (None, w2))
                   else (None, w1)))"

subsection \<open>\<open>Close\<close>\<close>

definition RedisCacheClient_Close ::
  "'w cache_ops \<Rightarrow> cache_client \<Rightarrow> bool \<Rightarrow> 'w \<Rightarrow> redis_error option \<times> 'w" where
  "RedisCacheClient_Close ops client withGroupcacheServer w =
     (let w = (if groupcacheServerUrl client \<noteq> []
               then snd (redis_SRem ops GroupCacheClusterNodesUrlKey (groupcacheServerUrl client) w) else w);
          (err1, w) = redis_Close ops w;
          (err2, w) = reader_Close ops w;
          w = (if groupcacheServerUrl client \<noteq> [] \<and> withGroupcacheServer
               then snd (server_Shutdown ops w) else w)
      in (if err1 \<noteq> None then err1 else err2, w))"

subsection \<open>The groupcache getter\<close>

definition UnixMilli :: "int \<Rightarrow> int" where
  "UnixMilli t = t div Millisecond"

text \<open>How the wait loop ends: the getter returns (an error or nil), or the loop is left and the getter
  goes on after it.\<close>

datatype loop_exit = Returned "cache_error option" | Left_Loop

definition sink :: "'w cache_ops \<Rightarrow> bytes \<Rightarrow> int option \<Rightarrow> 'w \<Rightarrow> cache_error option \<times> 'w" where
  "sink ops cacheData expire w =
     (case sink_SetBytes ops cacheData expire w of
        (Some e, w') \<Rightarrow> (Some (SinkError e), w') | (None, w') \<Rightarrow> (None, w'))"

text \<open>The body of the wait loop: it ends the loop (\<open>Inl\<close>) or goes round again (\<open>Inr\<close>).\<close>

definition wait_round :: "'w cache_ops \<Rightarrow> string \<Rightarrow> 'w \<Rightarrow> (loop_exit \<times> 'w) + 'w" where
  "wait_round ops cacheKey w =
     (let (reply, w) = pipe_reader ops cacheKey w
      in case r_get reply of
           Inl RedisNil \<Rightarrow>
             (let w = time_Sleep ops (5 * Millisecond) w
              in case ctx_Err ops w of
                   Some e \<Rightarrow> Inl (Returned (Some (ContextError e)), w)
                 | None \<Rightarrow> Inr w)
         | Inl (RedisError _) \<Rightarrow> Inl (Left_Loop, w)
         | Inr cacheData \<Rightarrow>
             (let ttl = r_ttl reply
              in if ttl = -1 \<or> ttl > 0
                 then (let expire = (if ttl > 0 then Some (time_Now ops w + ttl) else None);
                           (res, w) = sink ops cacheData expire w
                       in Inl (Returned res, w))
                 else Inr w))"

text \<open>\<open>for time.Now().UnixMilli() < eta\<close>, with fuel; \<open>None\<close> is running out of it.\<close>

fun wait_loop ::
  "nat \<Rightarrow> 'w cache_ops \<Rightarrow> string \<Rightarrow> int \<Rightarrow> 'w \<Rightarrow> (loop_exit \<times> 'w) option" where
  "wait_loop 0 ops cacheKey eta w = None"
| "wait_loop (Suc n) ops cacheKey eta w =
     (if UnixMilli (time_Now ops w) < eta
      then (case wait_round ops cacheKey w of
              Inl r \<Rightarrow> Some r
            | Inr w \<Rightarrow> wait_loop n ops cacheKey eta w)
      else Some (Left_Loop, w))"

definition etaKey :: "string \<Rightarrow> string" where
  "etaKey cacheKey = GroupCacheName @ '':'' @ cacheKey @ ''.ETA''"

text \<open>The getter: \<open>nil\<close> is \<open>None\<close>. The writer client carries the pipeline when it holds the \<open>SETNX\<close> of
  the lock, the reader client otherwise.\<close>

definition getter_first_read :: "'w cache_ops \<Rightarrow> u64 \<Rightarrow> string \<Rightarrow> 'w \<Rightarrow> pipe_reply \<times> int \<times> 'w" where
  "getter_first_read ops waitETA cacheKey w =
     (let wait = int64 (sint waitETA * Millisecond);
          eta = UnixMilli (time_Now ops w + wait)
      in if waitETA > 0
         then (let (reply, w') = pipe_writer ops cacheKey (Some (etaKey cacheKey, eta, wait)) w in (reply, eta, w'))
         else (let (reply, w') = pipe_reader ops cacheKey w in (reply, 0, w')))"

definition getter_wait ::
  "nat \<Rightarrow> 'w cache_ops \<Rightarrow> string \<Rightarrow> int \<Rightarrow> 'w \<Rightarrow> (loop_exit \<times> 'w) option" where
  "getter_wait n ops cacheKey defaultEta w =
     (case reader_GetInt64 ops (etaKey cacheKey) w of
        (Inl _, w') \<Rightarrow> wait_loop n ops cacheKey defaultEta w'
      | (Inr eta, w') \<Rightarrow> wait_loop n ops cacheKey eta w')"

definition GetterFunc ::
  "nat \<Rightarrow> 'w cache_ops \<Rightarrow> u64 \<Rightarrow> string \<Rightarrow> 'w \<Rightarrow> (cache_error option \<times> 'w) option" where
  "GetterFunc n ops waitETA cacheKey w =
     (let (reply, defaultEta, w) = getter_first_read ops waitETA cacheKey w
      in case r_get reply of
           Inl RedisNil \<Rightarrow>
             if waitETA > 0
             then if r_setnx reply
                  then Some (Some (ErrNotFound ''cache key not found in redis (lock acquired)''), w)
                  else (case getter_wait n ops cacheKey defaultEta w of
                          None \<Rightarrow> None
                        | Some (Returned res, w) \<Rightarrow> Some (res, w)
                        | Some (Left_Loop, w) \<Rightarrow> Some (Some (ErrNotFound ''cache key not found in redis''), w))
             else Some (Some (ErrNotFound ''cache key not found in redis''), w)
         | Inl (RedisError e) \<Rightarrow> Some (Some (RedisFailure (RedisError e)), w)
         | Inr cacheData \<Rightarrow>
             (let ttl = r_ttl reply;
                  expire = (if ttl > 0 then Some (time_Now ops w + ttl) else None)
              in Some (sink ops cacheData expire w)))"

end
