(* ===== verification/Http.thy ===== *)
theory Http
  imports Prelude
begin

text \<open>
  The edge to Fiber and fasthttp. The objects of those libraries are not modelled: what the code calls
  on them is listed, in order, as \<open>effect\<close> values, and what it reads from them is given as values
  (\<open>fiber_ctx\<close> for the request, \<open>http_response\<close> for the answer of an upstream).
\<close>

datatype upstream = PrimaryEngine | ReplicaEngine | ScriptingServer

record http_response =
  resp_status :: nat
  resp_body :: bytes
  resp_content_type :: bytes
  resp_content_encoding :: bytes
  resp_request_id :: "bytes option"

text \<open>\<open>UpstreamDo u resp\<close> is a call of the client of \<open>u\<close> that leaves \<open>resp\<close> in the response object, which is what
  Fiber sends when the handler adds nothing.\<close>

datatype effect =
    ReqHeaderDel string
  | ReqSetHost string
  | ReqSetRequestURI string
  | ReqHeaderAdd string bytes
  | ReqHeaderSet string bytes
  | InjectTraceContext
  | UpstreamDo upstream http_response
  | ProxyDo string
  | RespHeaderDel string
  | RespHeaderSet string bytes
  | CtxSet string bytes
  | SendBody nat bytes
  | SendStatus nat

record fiber_ctx =
  ctx_ip :: string
  ctx_body :: bytes
  ctx_headers :: "(bytes \<times> bytes list) list"
  ctx_params_plus :: string
  ctx_execute_secret :: string
  ctx_execute_url :: string
  ctx_request_id :: bytes
  ctx_traceparent :: bytes

text \<open>The upstreams a trace of effects sends the request to.\<close>

definition sent_to :: "effect list \<Rightarrow> upstream list" where
  "sent_to es = concat (map (\<lambda>e. case e of UpstreamDo u _ \<Rightarrow> [u] | _ \<Rightarrow> []) es)"

lemma sent_to_append [simp]: "sent_to (es @ fs) = sent_to es @ sent_to fs"
  by (simp add: sent_to_def)

lemma sent_to_Nil [simp]: "sent_to [] = []"
  by (simp add: sent_to_def)

lemma sent_to_Cons [simp]: "sent_to (e # es) = (case e of UpstreamDo u _ \<Rightarrow> [u] | _ \<Rightarrow> []) @ sent_to es"
  by (simp add: sent_to_def)

end
