(* ===== verification/Envelope.thy ===== *)
theory Envelope
  imports CacheKey Cache_Client Http
begin

text \<open>
  The cache entry of \<open>src/query_cache.go\<close>: eight bytes of little-endian body length, the body, the
  metadata in JSON. \<open>ReadResponseBodyAndSaveToCache\<close> writes it, \<open>SendCachedResponseBody\<close> reads it.
  The JSON codec (jsoniter) is a pair of parameters; \<open>json_codec\<close> is the law it is used under. Calls
  that change the Fiber context or the response are listed in order as \<open>effect\<close> values.
\<close>

subsection \<open>Little-endian lengths: \<open>encoding/binary\<close>\<close>

text \<open>What a framed format relies on: a width, and decoding undoes encoding whatever follows.\<close>

locale fixed_width_codec =
  fixes enc :: "'a \<Rightarrow> bytes" and dec :: "bytes \<Rightarrow> 'a" and width :: nat
  assumes enc_width: "length (enc x) = width"
    and dec_enc: "dec (enc x) = x"
begin

lemma dec_front: "dec (take width (enc x @ rest)) = x"
  by (simp add: enc_width dec_enc)

lemma rest_behind: "drop width (enc x @ rest) = rest"
  by (simp add: enc_width)

lemma enc_inject: "enc x = enc y \<longleftrightarrow> x = y"
  by (metis dec_enc)

end

definition PutUint64 :: "u64 \<Rightarrow> bytes" where
  "PutUint64 k = map (\<lambda>i. char_of (unat k div 256 ^ i)) [0 ..< 8]"

definition Uint64 :: "bytes \<Rightarrow> u64" where
  "Uint64 b = word_of_nat (\<Sum>i < 8. of_char (b ! i) * 256 ^ i)"

lemma digits_256: "(\<Sum>i < n. (m div 256 ^ i) mod 256 * 256 ^ i) = m mod 256 ^ n" for m n :: nat
proof (induction n)
  case (Suc n)
  have "m mod 256 ^ Suc n = 256 ^ n * (m div 256 ^ n mod 256) + m mod 256 ^ n"
    by (metis mod_mult2_eq power_Suc mult.commute)
  with Suc show ?case by (simp add: mult.commute)
qed simp

lemma Uint64_PutUint64: "Uint64 (PutUint64 k) = k"
proof -
  have "(\<Sum>i < 8. of_char (PutUint64 k ! i) * 256 ^ i) = (\<Sum>i < 8. (unat k div 256 ^ i) mod 256 * 256 ^ i)"
    by (rule sum.cong) (simp_all add: PutUint64_def of_char_of take_bit_eq_mod)
  also have "\<dots> = unat k mod 256 ^ 8" by (rule digits_256)
  also have "\<dots> = unat k" by (rule mod_less) (rule less_le_trans [OF unsigned_less], simp)
  finally show ?thesis by (simp add: Uint64_def)
qed

interpretation le64: fixed_width_codec PutUint64 Uint64 8
  by unfold_locales (simp add: PutUint64_def, rule Uint64_PutUint64)

subsection \<open>Reading and writing an entry\<close>

record CacheResponseRedis =
  ExpiresAt :: int
  ContentType :: bytes
  ContentEncoding :: bytes

text \<open>\<open>SendCachedResponseBody\<close>. \<open>now\<close> is \<open>time.Now().Unix()\<close>, \<open>traceparent\<close> the text made of the span
  context. \<open>int(bodyLength)\<close> reads the length as signed; the slice takes it as unsigned, and both
  additions wrap.\<close>

definition SendCachedResponseBody ::
  "(bytes \<Rightarrow> string + CacheResponseRedis) \<Rightarrow> int \<Rightarrow> bytes \<Rightarrow> bytes \<Rightarrow> u64 \<Rightarrow> u64 \<Rightarrow>
     (http_error, unit) result \<times> effect list" where
  "SendCachedResponseBody unmarshal now traceparent cacheData familyCacheKey cacheKey =
     (if length cacheData \<le> 8 then (Err (GoError ''invalid cache data length''), [])
      else (let bodyLength = Uint64 (take 8 cacheData)
            in if int (length cacheData) < int64 (8 + sint bodyLength)
               then (Err (GoError ''mising cache body in cache data''), [])
               else (case and_then (slice cacheData 8 (uint (8 + bodyLength))) (\<lambda>cacheBody.
                            and_then (slice_from cacheData (uint (8 + bodyLength))) (\<lambda>meta.
                              case unmarshal meta of
                                Inl err \<Rightarrow> Err (GoError err)
                              | Inr r \<Rightarrow> Ok (cacheBody, r))) of
                       Panic p \<Rightarrow> (Panic p, [])
                     | Err e \<Rightarrow> (Err e, [])
                     | Ok (cacheBody, r) \<Rightarrow>
                         (let age = int64 (ExpiresAt r - now);
                              maxAge = (if age < 0 then 0 else age)
                          in (Ok (),
                              [CtxSet ''Content-Type'' (ContentType r)] @
                              (if ContentEncoding r \<noteq> [] then [CtxSet ''Content-Encoding'' (ContentEncoding r)] else []) @
                              [CtxSet ''X-Hasura-Query-Cache-Key'' (FormatCacheKey cacheKey),
                               CtxSet ''X-Hasura-Query-Family-Cache-Key'' (FormatFamilyKey familyCacheKey),
                               CtxSet ''Cache-Control'' (''max-age='' @ FormatInt maxAge),
                               ReqHeaderSet ''Traceparent'' traceparent,
                               SendBody 200 cacheBody])))))"

definition cache_entry :: "bytes \<Rightarrow> bytes \<Rightarrow> bytes" where
  "cache_entry body meta = PutUint64 (word_of_nat (length body)) @ body @ meta"

definition cache_meta :: "int \<Rightarrow> http_response \<Rightarrow> CacheResponseRedis" where
  "cache_meta expiresAt resp =
     \<lparr>ExpiresAt = expiresAt, ContentType = resp_content_type resp, ContentEncoding = resp_content_encoding resp\<rparr>"

definition ReadResponseBodyAndSaveToCache ::
  "'w cache_ops \<Rightarrow> cache_client \<Rightarrow> (CacheResponseRedis \<Rightarrow> string + bytes) \<Rightarrow> http_response \<Rightarrow> int \<Rightarrow> u64 \<Rightarrow> u64 \<Rightarrow>
     'w \<Rightarrow> effect list \<times> 'w" where
  "ReadResponseBodyAndSaveToCache ops client marshal resp ttl familyCacheKey cacheKey w =
     (let expiresAt = (time_Now ops w + int64 (ttl * Second)) div Second
      in case marshal (cache_meta expiresAt resp) of
           Inl err \<Rightarrow> ([], w)
         | Inr cacheMeta \<Rightarrow>
             (let cacheData = cache_entry (resp_body resp) cacheMeta;
                  redisKey = CreateRedisKey familyCacheKey cacheKey
              in case RedisCacheClient_Set ops client redisKey cacheData ttl w of
                   (Some err, w') \<Rightarrow> ([], w')
                 | (None, w') \<Rightarrow>
                     ([RespHeaderSet ''X-Hasura-Query-Cache-Key'' (FormatCacheKey cacheKey),
                       RespHeaderSet ''X-Hasura-Query-Family-Cache-Key'' (FormatFamilyKey familyCacheKey),
                       RespHeaderSet ''Cache-Control'' (''max-age='' @ FormatInt ttl)], w')))"

text \<open>The law of the JSON codec: what was marshalled is read back.\<close>

definition json_codec ::
  "(CacheResponseRedis \<Rightarrow> string + bytes) \<Rightarrow> (bytes \<Rightarrow> string + CacheResponseRedis) \<Rightarrow> bool" where
  "json_codec marshal unmarshal \<longleftrightarrow>
     (\<forall>m b. marshal m = Inr b \<longrightarrow> b \<noteq> [] \<and> unmarshal b = Inr m)"

subsection \<open>Lengths of entries\<close>

lemma signed_63:
  fixes i :: int
  assumes "0 \<le> i" and "i < 2 ^ 64"
  shows "signed_take_bit 63 i = (if i < 2 ^ 63 then i else i - 2 ^ 64)"
proof -
  have "take_bit 64 i = i" using assms by (simp add: take_bit_int_eq_self)
  moreover have "bit i 63 \<longleftrightarrow> 2 ^ 63 \<le> i"
  proof (cases "i < 2 ^ 63")
    case True
    with assms show ?thesis by (simp add: bit_iff_odd)
  next
    case False
    then have "1 \<le> i div 2 ^ 63" by (simp add: pos_imp_zdiv_pos_iff int_one_le_iff_zero_less)
    moreover have "i div 2 ^ 63 < 2" using assms by (simp add: div_less_iff_less_mult)
    ultimately have "i div 2 ^ 63 = 1" by linarith
    with False show ?thesis by (simp add: bit_iff_odd)
  qed
  ultimately show ?thesis by (simp add: signed_take_bit_eq_take_bit_minus)
qed

lemma uint_u64: "0 \<le> uint k" "uint k < 2 ^ 64" for k :: u64
  using unsigned_less [of k] by simp_all

lemma sint_u64: "sint k = (if uint k < 2 ^ 63 then uint k else uint k - 2 ^ 64)" for k :: u64
proof -
  have "sint k = signed_take_bit 63 (uint k)" by (simp add: sint_uint)
  also have "\<dots> = (if uint k < 2 ^ 63 then uint k else uint k - 2 ^ 64)"
    by (rule signed_63) (rule uint_u64)+
  finally show ?thesis .
qed

lemma mod_once: "m \<le> x \<Longrightarrow> x < 2 * m \<Longrightarrow> x mod m = x - m" for x m :: int
  by (metis minus_mod_self2 mod_pos_pos_trivial diff_ge_0_iff_ge diff_less_eq mult_2)

lemma uint_add_8: "uint (8 + k) = (if uint k < 2 ^ 64 - 8 then 8 + uint k else uint k + 8 - 2 ^ 64)" for k :: u64
proof -
  have eq: "uint (8 + k) = (8 + uint k) mod 2 ^ 64" by (simp add: uint_word_ariths)
  show ?thesis
  proof (cases "uint k < 2 ^ 64 - 8")
    case True
    then have "(8 + uint k) mod 2 ^ 64 = 8 + uint k"
      using uint_u64 [of k] by (intro mod_pos_pos_trivial) linarith+
    with True eq show ?thesis by simp
  next
    case False
    then have "(8 + uint k) mod 2 ^ 64 = (8 + uint k) - 2 ^ 64"
      using uint_u64 [of k] by (intro mod_once) simp_all
    with False eq show ?thesis by simp
  qed
qed

lemma int64_add_8:
  "int64 (8 + sint k) = (if uint k < 2 ^ 63 - 8 then 8 + uint k else 8 + uint k - 2 ^ 64)" for k :: u64
proof (cases "uint k < 2 ^ 63 - 8")
  case True
  then have "- (2 ^ 63) \<le> 8 + uint k" "8 + uint k < 2 ^ 63" using uint_u64 [of k] by linarith+
  with True show ?thesis by (simp add: int64_id sint_u64)
next
  case False
  show ?thesis
  proof (cases "uint k < 2 ^ 63")
    case True
    have "int64 (8 + uint k) = signed_take_bit 63 (8 + uint k)"
      by (simp only: int64_def sint_sbintrunc') simp
    also have "\<dots> = (if 8 + uint k < 2 ^ 63 then 8 + uint k else 8 + uint k - 2 ^ 64)"
      using uint_u64 [of k] True by (intro signed_63) simp_all
    finally show ?thesis using True False by (simp add: sint_u64)
  next
    case ge: False
    have "int64 (8 + (uint k - 2 ^ 64)) = 8 + (uint k - 2 ^ 64)"
      using uint_u64 [of k] ge by (intro int64_id) simp_all
    with ge show ?thesis by (simp add: sint_u64)
  qed
qed

lemma entry_slice:
  fixes d :: bytes
  assumes "8 < length d" and "int (length d) < 2 ^ 63" and "k = Uint64 (take 8 d)"
  shows "int (length d) < int64 (8 + sint k) \<longleftrightarrow> uint k < 2 ^ 63 - 8 \<and> length d < 8 + unat k"
    and "2 ^ 63 - 8 \<le> uint k \<Longrightarrow> slice d 8 (uint (8 + k)) = Panic SliceOutOfRange"
    and "8 + unat k \<le> length d \<Longrightarrow> slice d 8 (uint (8 + k)) = Ok (take (unat k) (drop 8 d))"
    and "8 + unat k \<le> length d \<Longrightarrow> slice_from d (uint (8 + k)) = Ok (drop (8 + unat k) d)"
proof -
  have n: "uint k = int (unat k)" by simp
  then have short: "length d < 8 + unat k \<longleftrightarrow> int (length d) < 8 + uint k" by linarith
  show "int (length d) < int64 (8 + sint k) \<longleftrightarrow> uint k < 2 ^ 63 - 8 \<and> length d < 8 + unat k"
    using assms(1) uint_u64 [of k] unfolding short by (auto simp: int64_add_8)
  show "slice d 8 (uint (8 + k)) = Panic SliceOutOfRange" if "2 ^ 63 - 8 \<le> uint k"
    using that assms(2) uint_u64 [of k] by (auto simp: slice_def uint_add_8)
  show "slice d 8 (uint (8 + k)) = Ok (take (unat k) (drop 8 d))"
    and "slice_from d (uint (8 + k)) = Ok (drop (8 + unat k) d)" if le: "8 + unat k \<le> length d"
  proof -
    have "uint k < 2 ^ 64 - 8" using le assms(2) short by simp
    then have e: "uint (8 + k) = 8 + int (unat k)" by (simp add: uint_add_8)
    have le': "8 + uint k \<le> int (length d)" using le short by simp
    show "slice d 8 (uint (8 + k)) = Ok (take (unat k) (drop 8 d))"
      using le' unfolding e by (simp add: slice_def)
    show "slice_from d (uint (8 + k)) = Ok (drop (8 + unat k) d)"
      using le' unfolding e by (simp add: slice_from_Ok nat_add_distrib)
  qed
qed

subsection \<open>Properties\<close>

text \<open>C32. Reading an entry, case by case, for every entry that fits into memory. A length field of
  \<open>2 ^ 63 - 8\<close> or more passes the length check, because the sum wraps, and the slice expression then
  panics; every other damaged entry is an error, and a good one is sent.\<close>

theorem read_entry_cases:
  assumes "int (length d) < 2 ^ 63"
  shows "fst (SendCachedResponseBody unmarshal now tp d family key) =
    (let k = Uint64 (take 8 d)
     in if length d \<le> 8 then Err (GoError ''invalid cache data length'')
        else if 2 ^ 63 - 8 \<le> uint k then Panic SliceOutOfRange
        else if length d < 8 + unat k then Err (GoError ''mising cache body in cache data'')
        else (case unmarshal (drop (8 + unat k) d) of Inl e \<Rightarrow> Err (GoError e) | Inr r \<Rightarrow> Ok ()))"
proof (cases "length d \<le> 8")
  case True
  then show ?thesis by (simp add: SendCachedResponseBody_def Let_def)
next
  case False
  then have d: "8 < length d" by simp
  define k where "k = Uint64 (take 8 d)"
  note rd = entry_slice [OF d assms k_def]
  show ?thesis
  proof (cases "2 ^ 63 - 8 \<le> uint k")
    case True
    then have "\<not> int (length d) < int64 (8 + sint k)" by (simp add: rd(1))
    with d True show ?thesis
      unfolding SendCachedResponseBody_def Let_def k_def [symmetric] rd(2) [OF True] by simp
  next
    case small: False
    show ?thesis
    proof (cases "length d < 8 + unat k")
      case True
      with small have "int (length d) < int64 (8 + sint k)" by (simp add: rd(1))
      with d small True show ?thesis
        unfolding SendCachedResponseBody_def Let_def k_def [symmetric] by simp
    next
      case False
      then have le: "8 + unat k \<le> length d" by simp
      with small have "\<not> int (length d) < int64 (8 + sint k)" by (simp add: rd(1))
      with d small False show ?thesis
        unfolding SendCachedResponseBody_def Let_def k_def [symmetric] rd(3) [OF le] rd(4) [OF le]
        by (simp split: sum.split)
    qed
  qed
qed

theorem read_entry_cases_witness:
  "fst (SendCachedResponseBody (\<lambda>_. Inl []) 0 [] (PutUint64 18446744073709551615 @ ''{}'') 1 2) = Panic SliceOutOfRange"
proof -
  have "length (PutUint64 18446744073709551615) = 8" by (rule le64.enc_width)
  moreover have "Uint64 (take 8 (PutUint64 18446744073709551615 @ ''{}'')) = 18446744073709551615" by (rule le64.dec_front)
  ultimately show ?thesis using read_entry_cases [of "PutUint64 18446744073709551615 @ ''{}''"] by (simp add: Let_def)
qed

text \<open>What the client gets for a good entry.\<close>

definition cached_reply :: "int \<Rightarrow> bytes \<Rightarrow> CacheResponseRedis \<Rightarrow> bytes \<Rightarrow> u64 \<Rightarrow> u64 \<Rightarrow> effect list" where
  "cached_reply now tp m body family key =
     [CtxSet ''Content-Type'' (ContentType m)] @
     (if ContentEncoding m \<noteq> [] then [CtxSet ''Content-Encoding'' (ContentEncoding m)] else []) @
     [CtxSet ''X-Hasura-Query-Cache-Key'' (FormatCacheKey key),
      CtxSet ''X-Hasura-Query-Family-Cache-Key'' (FormatFamilyKey family),
      CtxSet ''Cache-Control'' (''max-age='' @ FormatInt (max 0 (int64 (ExpiresAt m - now)))),
      ReqHeaderSet ''Traceparent'' tp, SendBody 200 body]"

lemma read_saved_entry:
  assumes meta: "meta \<noteq> []" "unmarshal meta = Inr m" and len: "int (length body) + int (length meta) < 2 ^ 63 - 8"
  shows "SendCachedResponseBody unmarshal now tp (cache_entry body meta) family key =
    (Ok (), cached_reply now tp m body family key)"
proof -
  let ?d = "cache_entry body meta" and ?k = "word_of_nat (length body) :: u64"
  have w8: "length (PutUint64 ?k) = 8" by (rule le64.enc_width)
  have d: "8 < length ?d" "int (length ?d) < 2 ^ 63"
    using meta(1) len by (simp_all add: cache_entry_def w8)
  have k: "?k = Uint64 (take 8 ?d)" unfolding cache_entry_def by (rule le64.dec_front [symmetric])
  have "length body < 2 ^ 64" using len by simp
  then have n: "unat ?k = length body" by (simp add: unsigned_of_nat take_bit_nat_eq_self)
  then have "8 + unat ?k \<le> length ?d" by (simp add: cache_entry_def w8)
  note rd = entry_slice [OF d k] this
  have "drop 8 ?d = body @ meta" unfolding cache_entry_def by (rule le64.rest_behind)
  then have body: "take (unat ?k) (drop 8 ?d) = body" and rest: "drop (8 + unat ?k) ?d = meta"
    by (simp_all only: n) (simp_all add: add.commute flip: drop_drop)
  have ok: "\<not> length ?d \<le> 8" "\<not> int (length ?d) < int64 (8 + sint ?k)" using d(1) rd(1,5) by auto
  have age: "(if a < 0 then 0 else a) = max 0 a" for a :: int by simp
  show ?thesis
    unfolding SendCachedResponseBody_def Let_def k [symmetric] rd(3) [OF rd(5)] rd(4) [OF rd(5)] body rest age cached_reply_def
    using ok by (simp add: meta(2))
qed

text \<open>C15. What is saved is what is sent later: the entry made from an answer is read back without an
  error, and the client gets the saved body with status 200, the saved content type and encoding, both
  cache keys and the seconds left, never a negative number.\<close>

theorem entry_roundtrip:
  assumes "json_codec marshal unmarshal" and "marshal m = Inr meta"
    and "int (length body) + int (length meta) < 2 ^ 63 - 8"
  shows "SendCachedResponseBody unmarshal now tp (cache_entry body meta) family key =
    (Ok (),
     [CtxSet ''Content-Type'' (ContentType m)] @
     (if ContentEncoding m \<noteq> [] then [CtxSet ''Content-Encoding'' (ContentEncoding m)] else []) @
     [CtxSet ''X-Hasura-Query-Cache-Key'' (FormatCacheKey key),
      CtxSet ''X-Hasura-Query-Family-Cache-Key'' (FormatFamilyKey family),
      CtxSet ''Cache-Control'' (''max-age='' @ FormatInt (max 0 (int64 (ExpiresAt m - now)))),
      ReqHeaderSet ''Traceparent'' tp, SendBody 200 body])"
  using read_saved_entry [of meta unmarshal m body now tp family key] assms
  by (simp add: json_codec_def cached_reply_def)

theorem entry_roundtrip_witness:
  "fst (SendCachedResponseBody
     (\<lambda>b. if b = ''M'' then Inr \<lparr>ExpiresAt = 9, ContentType = ''json'', ContentEncoding = ''gzip''\<rparr> else Inl ''bad'')
     2 [] (cache_entry ''{}'' ''M'') 1 2) = Ok ()"
proof -
  let ?m = "\<lparr>ExpiresAt = 9, ContentType = ''json'', ContentEncoding = ''gzip''\<rparr>"
  have "json_codec (\<lambda>m. if m = ?m then Inr ''M'' else Inl ''bad'') (\<lambda>b. if b = ''M'' then Inr ?m else Inl ''bad'')"
    by (simp add: json_codec_def)
  from entry_roundtrip [OF this, of ?m "''M''" "''{}''"] show ?thesis by simp
qed

end
