(* ===== verification/Config.thy ===== *)
theory Config
  imports Gostrings
begin

text \<open>
  \<open>src/config.go\<close>. Viper is a third-party package: its store is an abstract state \<open>'s\<close> and its calls are
  the record \<open>viper_ops\<close>; \<open>viper_laws\<close> is its documented behaviour that \<open>InitConfig\<close> relies on (a value set
  explicitly is the one that is read, and other keys keep theirs).
\<close>

datatype cfg_value = CStr string | CInt int | CBool bool

subsection \<open>The keys\<close>

definition ENGINE_PLUS_SERVER_HOST :: string where "ENGINE_PLUS_SERVER_HOST = ''ENGINE_PLUS_SERVER_HOST''"
definition ENGINE_PLUS_SERVER_PORT :: string where "ENGINE_PLUS_SERVER_PORT = ''ENGINE_PLUS_SERVER_PORT''"
definition ENGINE_PLUS_GRAPHQL_V1_PATH :: string where "ENGINE_PLUS_GRAPHQL_V1_PATH = ''ENGINE_PLUS_GRAPHQL_V1_PATH''"
definition ENGINE_PLUS_GRAPHQL_V1_READONLY_PATH :: string where "ENGINE_PLUS_GRAPHQL_V1_READONLY_PATH = ''ENGINE_PLUS_GRAPHQL_V1_READONLY_PATH''"
definition ENGINE_PLUS_EXECUTE_SECRET :: string where "ENGINE_PLUS_EXECUTE_SECRET = ''ENGINE_PLUS_EXECUTE_SECRET''"
definition ENGINE_PLUS_SCRIPTING_PUBLIC_PATH :: string where "ENGINE_PLUS_SCRIPTING_PUBLIC_PATH = ''ENGINE_PLUS_SCRIPTING_PUBLIC_PATH''"
definition ENGINE_PLUS_ALLOW_EXECURL :: string where "ENGINE_PLUS_ALLOW_EXECURL = ''ENGINE_PLUS_ALLOW_EXECURL''"
definition ENGINE_PLUS_HEALTH_CHECK_PATH :: string where "ENGINE_PLUS_HEALTH_CHECK_PATH = ''ENGINE_PLUS_HEALTH_CHECK_PATH''"
definition ENGINE_PLUS_META_PATH :: string where "ENGINE_PLUS_META_PATH = ''ENGINE_PLUS_META_PATH''"
definition ENGINE_PLUS_GRAPHQL_PRIMARY_VS_REPLICA_WEIGHT :: string where "ENGINE_PLUS_GRAPHQL_PRIMARY_VS_REPLICA_WEIGHT = ''ENGINE_PLUS_GRAPHQL_PRIMARY_VS_REPLICA_WEIGHT''"
definition ENGINE_PLUS_ENABLE_OPEN_TELEMETRY :: string where "ENGINE_PLUS_ENABLE_OPEN_TELEMETRY = ''ENGINE_PLUS_ENABLE_OPEN_TELEMETRY''"
definition DEBUG_MODE :: string where "DEBUG_MODE = ''DEBUG_MODE''"
definition ENGINE_PLUS_GROUPCACHE_PORT :: string where "ENGINE_PLUS_GROUPCACHE_PORT = ''ENGINE_PLUS_GROUPCACHE_PORT''"
definition ENGINE_PLUS_GROUPCACHE_CLUSTER_MODE :: string where "ENGINE_PLUS_GROUPCACHE_CLUSTER_MODE = ''ENGINE_PLUS_GROUPCACHE_CLUSTER_MODE''"
definition ENGINE_PLUS_GROUPCACHE_WAIT_ETA :: string where "ENGINE_PLUS_GROUPCACHE_WAIT_ETA = ''ENGINE_PLUS_GROUPCACHE_WAIT_ETA''"
definition ENGINE_PLUS_GROUPCACHE_MAX_SIZE :: string where "ENGINE_PLUS_GROUPCACHE_MAX_SIZE = ''ENGINE_PLUS_GROUPCACHE_MAX_SIZE''"
definition HASURA_GRAPHQL_CORS_DOMAIN :: string where "HASURA_GRAPHQL_CORS_DOMAIN = ''HASURA_GRAPHQL_CORS_DOMAIN''"
definition HASURA_GRAPHQL_READ_REPLICA_URLS :: string where "HASURA_GRAPHQL_READ_REPLICA_URLS = ''HASURA_GRAPHQL_READ_REPLICA_URLS''"
definition HASURA_GRAPHQL_DATABASE_URL :: string where "HASURA_GRAPHQL_DATABASE_URL = ''HASURA_GRAPHQL_DATABASE_URL''"
definition HASURA_GRAPHQL_METADATA_DATABASE_URL :: string where "HASURA_GRAPHQL_METADATA_DATABASE_URL = ''HASURA_GRAPHQL_METADATA_DATABASE_URL''"
definition HASURA_GRAPHQL_JWT_SECRET :: string where "HASURA_GRAPHQL_JWT_SECRET = ''HASURA_GRAPHQL_JWT_SECRET''"
definition HASURA_GRAPHQL_REDIS_URL :: string where "HASURA_GRAPHQL_REDIS_URL = ''HASURA_GRAPHQL_REDIS_URL''"
definition HASURA_GRAPHQL_REDIS_READER_URL :: string where "HASURA_GRAPHQL_REDIS_READER_URL = ''HASURA_GRAPHQL_REDIS_READER_URL''"
definition HASURA_GRAPHQL_REDIS_CLUSTER_URL :: string where "HASURA_GRAPHQL_REDIS_CLUSTER_URL = ''HASURA_GRAPHQL_REDIS_CLUSTER_URL''"
definition HASURA_GRAPHQL_CACHE_MAX_ENTRY_TTL :: string where "HASURA_GRAPHQL_CACHE_MAX_ENTRY_TTL = ''HASURA_GRAPHQL_CACHE_MAX_ENTRY_TTL''"

lemmas config_keys =
  ENGINE_PLUS_SERVER_HOST_def ENGINE_PLUS_SERVER_PORT_def ENGINE_PLUS_GRAPHQL_V1_PATH_def
  ENGINE_PLUS_GRAPHQL_V1_READONLY_PATH_def ENGINE_PLUS_EXECUTE_SECRET_def
  ENGINE_PLUS_SCRIPTING_PUBLIC_PATH_def ENGINE_PLUS_ALLOW_EXECURL_def ENGINE_PLUS_HEALTH_CHECK_PATH_def
  ENGINE_PLUS_META_PATH_def ENGINE_PLUS_GRAPHQL_PRIMARY_VS_REPLICA_WEIGHT_def
  ENGINE_PLUS_ENABLE_OPEN_TELEMETRY_def DEBUG_MODE_def ENGINE_PLUS_GROUPCACHE_PORT_def
  ENGINE_PLUS_GROUPCACHE_CLUSTER_MODE_def ENGINE_PLUS_GROUPCACHE_WAIT_ETA_def
  ENGINE_PLUS_GROUPCACHE_MAX_SIZE_def HASURA_GRAPHQL_CORS_DOMAIN_def HASURA_GRAPHQL_READ_REPLICA_URLS_def
  HASURA_GRAPHQL_DATABASE_URL_def HASURA_GRAPHQL_METADATA_DATABASE_URL_def HASURA_GRAPHQL_JWT_SECRET_def
  HASURA_GRAPHQL_REDIS_URL_def HASURA_GRAPHQL_REDIS_READER_URL_def HASURA_GRAPHQL_REDIS_CLUSTER_URL_def
  HASURA_GRAPHQL_CACHE_MAX_ENTRY_TTL_def

subsection \<open>The store\<close>

record 's viper_ops =
  v_AutomaticEnv :: "'s \<Rightarrow> 's"
  v_SetDefault :: "string \<Rightarrow> cfg_value \<Rightarrow> 's \<Rightarrow> 's"
  v_Set :: "string \<Rightarrow> cfg_value \<Rightarrow> 's \<Rightarrow> 's"
  v_GetString :: "'s \<Rightarrow> string \<Rightarrow> string"
  v_GetUint64 :: "'s \<Rightarrow> string \<Rightarrow> u64"
  v_GetInt :: "'s \<Rightarrow> string \<Rightarrow> int"
  v_GetInt64 :: "'s \<Rightarrow> string \<Rightarrow> int"
  v_GetBool :: "'s \<Rightarrow> string \<Rightarrow> bool"

definition SetupViper :: "'s viper_ops \<Rightarrow> 's \<Rightarrow> 's" where
  "SetupViper ops s = v_AutomaticEnv ops s"

definition config_defaults :: "(string \<times> cfg_value) list" where
  "config_defaults =
     [(ENGINE_PLUS_SERVER_HOST, CStr ''''),
      (ENGINE_PLUS_SERVER_PORT, CStr ''8000''),
      (ENGINE_PLUS_GRAPHQL_V1_PATH, CStr ''/public/graphql/v1''),
      (ENGINE_PLUS_GRAPHQL_V1_READONLY_PATH, CStr ''/public/graphql/v1readonly''),
      (ENGINE_PLUS_HEALTH_CHECK_PATH, CStr ''/public/graphql/health''),
      (ENGINE_PLUS_META_PATH, CStr ''/public/meta''),
      (HASURA_GRAPHQL_CORS_DOMAIN, CStr ''*''),
      (HASURA_GRAPHQL_CACHE_MAX_ENTRY_TTL, CInt 3600),
      (ENGINE_PLUS_GRAPHQL_PRIMARY_VS_REPLICA_WEIGHT, CInt 50),
      (ENGINE_PLUS_ENABLE_OPEN_TELEMETRY, CStr ''''),
      (DEBUG_MODE, CBool False),
      (ENGINE_PLUS_GROUPCACHE_PORT, CStr ''8879''),
      (ENGINE_PLUS_GROUPCACHE_CLUSTER_MODE, CStr ''''),
      (ENGINE_PLUS_GROUPCACHE_WAIT_ETA, CInt 500),
      (ENGINE_PLUS_GROUPCACHE_MAX_SIZE, CInt 60000000)]"

text \<open>\<open>InitConfig\<close>: the defaults, then one slash off the end of the metadata path, then the limit of the
  wait time. Indexing an empty metadata path panics.\<close>

definition strip_meta_path :: "'s viper_ops \<Rightarrow> 's \<Rightarrow> (string, 's) result" where
  "strip_meta_path ops s =
     (let engineMetaPath = v_GetString ops s ENGINE_PLUS_META_PATH;
          n = int (length engineMetaPath)
      in and_then (index engineMetaPath (n - 1)) (\<lambda>c.
           if c = CHR ''/''
           then map_result (\<lambda>p. v_Set ops ENGINE_PLUS_META_PATH (CStr p) s) (slice_to engineMetaPath (n - 1))
           else Ok s))"

definition limit_wait_eta :: "'s viper_ops \<Rightarrow> 's \<Rightarrow> 's" where
  "limit_wait_eta ops s =
     (if v_GetUint64 ops s ENGINE_PLUS_GROUPCACHE_WAIT_ETA > 3000
      then v_Set ops ENGINE_PLUS_GROUPCACHE_WAIT_ETA (CInt 3000) s else s)"

definition InitConfig :: "'s viper_ops \<Rightarrow> 's \<Rightarrow> (string, 's) result" where
  "InitConfig ops s =
     (let s = foldl (\<lambda>s (k, v). v_SetDefault ops k v s) s config_defaults
      in map_result (limit_wait_eta ops) (strip_meta_path ops s))"

text \<open>\<open>StripTrailingSlash\<close>: the slice \<open>path[len(path)-1:]\<close> is taken before anything else.\<close>

definition StripTrailingSlash :: "string \<Rightarrow> (string, string) result" where
  "StripTrailingSlash path =
     and_then (slice_from path (int (length path) - 1)) (\<lambda>t.
       if t = ''/'' then slice_to path (int (length path) - 1) else Ok path)"

subsection \<open>Properties\<close>

text \<open>The keys of the program. They stay different when viper ignores their case.\<close>

definition own_keys :: "string list" where
  "own_keys =
     [ENGINE_PLUS_SERVER_HOST, ENGINE_PLUS_SERVER_PORT, ENGINE_PLUS_GRAPHQL_V1_PATH, ENGINE_PLUS_GRAPHQL_V1_READONLY_PATH,
      ENGINE_PLUS_EXECUTE_SECRET, ENGINE_PLUS_SCRIPTING_PUBLIC_PATH, ENGINE_PLUS_ALLOW_EXECURL,
      ENGINE_PLUS_HEALTH_CHECK_PATH, ENGINE_PLUS_META_PATH, ENGINE_PLUS_GRAPHQL_PRIMARY_VS_REPLICA_WEIGHT,
      ENGINE_PLUS_ENABLE_OPEN_TELEMETRY, DEBUG_MODE, ENGINE_PLUS_GROUPCACHE_PORT, ENGINE_PLUS_GROUPCACHE_CLUSTER_MODE,
      ENGINE_PLUS_GROUPCACHE_WAIT_ETA, ENGINE_PLUS_GROUPCACHE_MAX_SIZE, HASURA_GRAPHQL_CORS_DOMAIN,
      HASURA_GRAPHQL_READ_REPLICA_URLS, HASURA_GRAPHQL_DATABASE_URL, HASURA_GRAPHQL_METADATA_DATABASE_URL,
      HASURA_GRAPHQL_JWT_SECRET, HASURA_GRAPHQL_REDIS_URL, HASURA_GRAPHQL_REDIS_READER_URL,
      HASURA_GRAPHQL_REDIS_CLUSTER_URL, HASURA_GRAPHQL_CACHE_MAX_ENTRY_TTL]"

text \<open>Documented behaviour of viper, for these keys: a value set explicitly is the one that is read, and the other
  keys keep theirs.\<close>

definition viper_laws :: "'s viper_ops \<Rightarrow> bool" where
  "viper_laws ops \<longleftrightarrow>
     (\<forall>k \<in> set own_keys. \<forall>s v. v_GetString ops (v_Set ops k (CStr v) s) k = v) \<and>
     (\<forall>k \<in> set own_keys. \<forall>s i. 0 \<le> i \<longrightarrow> v_GetUint64 ops (v_Set ops k (CInt i) s) k = word_of_int i) \<and>
     (\<forall>k \<in> set own_keys. \<forall>k' \<in> set own_keys. \<forall>s v. k \<noteq> k' \<longrightarrow> v_GetString ops (v_Set ops k v s) k' = v_GetString ops s k'
        \<and> v_GetUint64 ops (v_Set ops k v s) k' = v_GetUint64 ops s k')"

lemma viper_lawsD:
  assumes "viper_laws ops" and "k \<in> set own_keys"
  shows "v_GetString ops (v_Set ops k (CStr v) s) k = v"
    and "0 \<le> i \<Longrightarrow> v_GetUint64 ops (v_Set ops k (CInt i) s) k = word_of_int i"
    and "k' \<in> set own_keys \<Longrightarrow> k \<noteq> k' \<Longrightarrow> v_GetString ops (v_Set ops k x s) k' = v_GetString ops s k'"
    and "k' \<in> set own_keys \<Longrightarrow> k \<noteq> k' \<Longrightarrow> v_GetUint64 ops (v_Set ops k x s) k' = v_GetUint64 ops s k'"
  using assms by (simp_all add: viper_laws_def)

lemma own_key:
  "ENGINE_PLUS_META_PATH \<in> set own_keys" "ENGINE_PLUS_GROUPCACHE_WAIT_ETA \<in> set own_keys"
  "ENGINE_PLUS_SCRIPTING_PUBLIC_PATH \<in> set own_keys"
  by (simp_all add: own_keys_def)

lemma index_last: "xs \<noteq> [] \<Longrightarrow> index xs (int (length xs) - 1) = Ok (last xs)"
  by (cases xs rule: rev_cases) (simp_all add: index_def nth_append)

lemma slice_from_last: "xs \<noteq> [] \<Longrightarrow> slice_from xs (int (length xs) - 1) = Ok [last xs]"
  by (cases xs rule: rev_cases) (simp_all add: slice_from_Ok)

lemma slice_to_butlast: "xs \<noteq> [] \<Longrightarrow> slice_to xs (int (length xs) - 1) = Ok (butlast xs)"
  by (cases xs rule: rev_cases) (simp_all add: slice_to_Ok)

lemma StripTrailingSlash_Nil: "StripTrailingSlash [] = Panic SliceOutOfRange"
  by (simp add: StripTrailingSlash_def slice_from_Panic)

lemma StripTrailingSlash_append:
  "StripTrailingSlash (p @ [c]) = (if c = CHR ''/'' then Ok p else Ok (p @ [c]))"
  using slice_from_last [of "p @ [c]"] slice_to_butlast [of "p @ [c]"] by (auto simp: StripTrailingSlash_def go_simps)

text \<open>Stripping the slash: a path of one character or more loses one final slash and nothing else;
  the empty path panics.\<close>

lemma StripTrailingSlash_cases:
  "StripTrailingSlash path =
     (if path = [] then Panic SliceOutOfRange
      else if last path = CHR ''/'' then Ok (butlast path) else Ok path)"
  by (cases "path = []") (simp_all add: StripTrailingSlash_def slice_from_Panic slice_from_last slice_to_butlast)

text \<open>A configuration that \<open>InitConfig\<close> accepts waits at most 3000 milliseconds, and its metadata path
  is the one read after the defaults less one final slash.\<close>

theorem InitConfig_normalises:
  assumes "viper_laws ops" and "InitConfig ops s = Ok s'"
    and "path = v_GetString ops (foldl (\<lambda>s (k, v). v_SetDefault ops k v s) s config_defaults) ENGINE_PLUS_META_PATH"
  shows "v_GetUint64 ops s' ENGINE_PLUS_GROUPCACHE_WAIT_ETA \<le> 3000 \<and> path \<noteq> [] \<and>
    v_GetString ops s' ENGINE_PLUS_META_PATH = (if last path = CHR ''/'' then butlast path else path)"
proof -
  let ?s = "foldl (\<lambda>s (k, v). v_SetDefault ops k v s) s config_defaults"
  have ne: "ENGINE_PLUS_GROUPCACHE_WAIT_ETA \<noteq> ENGINE_PLUS_META_PATH" by (simp add: config_keys)
  from assms(2) obtain t where t: "strip_meta_path ops ?s = Ok t" and s': "s' = limit_wait_eta ops t"
    by (auto simp: InitConfig_def Let_def go_simps)
  have path: "path \<noteq> []"
    using t assms(3) by (auto simp: strip_meta_path_def Let_def index_def)
  then have "t = (if last path = CHR ''/'' then v_Set ops ENGINE_PLUS_META_PATH (CStr (butlast path)) ?s else ?s)"
    using t by (auto simp: strip_meta_path_def Let_def index_last slice_to_butlast
        simp flip: assms(3) split: if_splits)
  then have "v_GetString ops t ENGINE_PLUS_META_PATH = (if last path = CHR ''/'' then butlast path else path)"
    using assms(3) by (simp add: viper_lawsD(1) [OF assms(1) own_key(1)])
  moreover have "v_GetString ops s' ENGINE_PLUS_META_PATH = v_GetString ops t ENGINE_PLUS_META_PATH"
    using ne by (simp add: s' limit_wait_eta_def viper_lawsD(3) [OF assms(1) own_key(2,1)])
  moreover have "v_GetUint64 ops s' ENGINE_PLUS_GROUPCACHE_WAIT_ETA \<le> 3000"
    by (simp add: s' limit_wait_eta_def viper_lawsD(2) [OF assms(1) own_key(2)] not_less)
  ultimately show ?thesis using path by simp
qed

text \<open>A store that remembers what was set last and falls back to the defaults.\<close>

definition map_viper :: "(string \<rightharpoonup> cfg_value) viper_ops" where
  "map_viper =
     \<lparr>v_AutomaticEnv = \<lambda>s. s,
      v_SetDefault = \<lambda>k v s. if s k = None then s(k \<mapsto> v) else s,
      v_Set = \<lambda>k v s. s(k \<mapsto> v),
      v_GetString = \<lambda>s k. (case s k of Some (CStr v) \<Rightarrow> v | _ \<Rightarrow> []),
      v_GetUint64 = \<lambda>s k. (case s k of Some (CInt i) \<Rightarrow> word_of_int i | _ \<Rightarrow> 0),
      v_GetInt = \<lambda>s k. (case s k of Some (CInt i) \<Rightarrow> i | _ \<Rightarrow> 0),
      v_GetInt64 = \<lambda>s k. (case s k of Some (CInt i) \<Rightarrow> i | _ \<Rightarrow> 0),
      v_GetBool = \<lambda>s k. (case s k of Some (CBool b) \<Rightarrow> b | _ \<Rightarrow> False)\<rparr>"

lemma map_viper_laws: "viper_laws map_viper"
  by (simp add: viper_laws_def map_viper_def)

theorem InitConfig_normalises_witness:
  "\<exists>s'. InitConfig map_viper [ENGINE_PLUS_META_PATH \<mapsto> CStr ''/meta/'', ENGINE_PLUS_GROUPCACHE_WAIT_ETA \<mapsto> CInt 9999] = Ok s' \<and>
     v_GetUint64 map_viper s' ENGINE_PLUS_GROUPCACHE_WAIT_ETA \<le> 3000 \<and> v_GetString map_viper s' ENGINE_PLUS_META_PATH = ''/meta''"
proof -
  let ?s = "[ENGINE_PLUS_META_PATH \<mapsto> CStr ''/meta/'', ENGINE_PLUS_GROUPCACHE_WAIT_ETA \<mapsto> CInt 9999]"
  have meta: "v_GetString map_viper (foldl (\<lambda>s (k, v). v_SetDefault map_viper k v s) ?s config_defaults) ENGINE_PLUS_META_PATH = ''/meta/''"
    by (simp add: config_defaults_def map_viper_def config_keys)
  then obtain s' where s': "InitConfig map_viper ?s = Ok s'"
    by (simp add: InitConfig_def strip_meta_path_def Let_def index_def slice_to_def slice_def go_simps)
  show ?thesis
    using InitConfig_normalises [OF map_viper_laws s' meta [symmetric]] s' by simp
qed

end
