(* ===== verification/Handlers.thy ===== *)
theory Handlers
  imports Envelope Config
begin

text \<open>
  The request handlers: \<open>src/fiber_graphql_handler.go\<close> and the routes of \<open>setupFiber\<close> in \<open>src/main.go\<close>.
  A handler takes the environment, the request context and the world, and returns what it returns to
  Fiber, the calls it made on the request and response objects in order, and the world after it. The
  upstream servers, the random source and Fiber's \<open>proxy.Do\<close> are fields of the environment; the request
  an upstream sees is the context with the calls made so far.
\<close>

subsection \<open>Environment\<close>

text \<open>\<open>ctx.Err()\<close> of a startup context is nil only while it is running: it is cancelled when startup is
  done and expires when startup takes too long.\<close>

datatype startup_context = Running | Cancelled | DeadlineExceeded

definition startup_Err :: "startup_context \<Rightarrow> string option" where
  "startup_Err ctx =
     (case ctx of
        Running \<Rightarrow> None
      | Cancelled \<Rightarrow> Some ''context canceled''
      | DeadlineExceeded \<Rightarrow> Some ''context deadline exceeded'')"

record engine_config =
  cfg_v1_path :: string
  cfg_v1_readonly_path :: string
  cfg_health_path :: string
  cfg_meta_path :: string
  cfg_scripting_path :: string
  cfg_execute_secret :: string
  cfg_allow_execurl :: bool
  cfg_weight :: u64
  cfg_replica_urls :: string
  cfg_max_ttl :: int

record 'w server_env =
  env_cfg :: engine_config
  env_ops :: "'w cache_ops"
  env_client :: "cache_client option"
  env_jwt :: JwtAuthParser
  parse_unverified :: "bytes \<Rightarrow> string + claims option"
  format_float :: "u64 \<Rightarrow> bytes"
  body_parser :: "bytes \<Rightarrow> string + GraphQLRequest"
  json_marshal :: "CacheResponseRedis \<Rightarrow> string + bytes"
  json_unmarshal :: "bytes \<Rightarrow> string + CacheResponseRedis"
  upstream_Do :: "upstream \<Rightarrow> fiber_ctx \<Rightarrow> effect list \<Rightarrow> 'w \<Rightarrow> (string option \<times> http_response) \<times> 'w"
  proxy_Do :: "string \<Rightarrow> fiber_ctx \<Rightarrow> 'w \<Rightarrow> string option \<times> 'w"
  rand_Intn :: "nat \<Rightarrow> 'w \<Rightarrow> nat \<times> 'w"

type_synonym 'w outcome = "(http_error, unit) result \<times> effect list \<times> 'w"

definition as_result :: "string option \<Rightarrow> (http_error, unit) result" where
  "as_result err = (case err of None \<Rightarrow> Ok () | Some e \<Rightarrow> Err (GoError e))"

subsection \<open>Around the proxy\<close>

definition prepareProxyRequest :: "string \<Rightarrow> string \<Rightarrow> string \<Rightarrow> effect list" where
  "prepareProxyRequest upstreamHost upstreamPath clientIpAddress =
     [ReqHeaderDel ''Connection'', ReqSetHost upstreamHost] @
     (if upstreamPath \<noteq> [] then [ReqSetRequestURI (''http://'' @ upstreamHost @ upstreamPath)] else []) @
     (if clientIpAddress \<noteq> [] then [ReqHeaderAdd ''X-Forwarded-For'' clientIpAddress] else [])"

definition processProxyResponse ::
  "'w server_env \<Rightarrow> http_response \<Rightarrow> cache_client option \<Rightarrow> int \<Rightarrow> u64 \<Rightarrow> u64 \<Rightarrow> 'w \<Rightarrow> effect list \<times> 'w" where
  "processProxyResponse env resp redisCacheClient ttl familyCacheKey cacheKey w =
     (case redisCacheClient of
        Some client \<Rightarrow>
          if ttl \<noteq> 0 \<and> cacheKey > 0 \<and> resp_status resp = 200
          then (let (es, w') = ReadResponseBodyAndSaveToCache (env_ops env) client (json_marshal env) resp ttl
                                 familyCacheKey cacheKey w
                in (RespHeaderDel ''Connection'' # es, w'))
          else ([RespHeaderDel ''Connection''], w)
      | None \<Rightarrow> ([RespHeaderDel ''Connection''], w))"

subsection \<open>\<open>src/fiber_graphql_handler.go\<close>\<close>

definition graphqlMutationHandler :: "'w server_env \<Rightarrow> fiber_ctx \<Rightarrow> GraphQLRequest \<Rightarrow> 'w \<Rightarrow> 'w outcome" where
  "graphqlMutationHandler env c graphqlReq w =
     (let es = prepareProxyRequest ''localhost:8881'' ''/v1/graphql'' (ctx_ip c) @ [InjectTraceContext];
          ((err, resp), w) = upstream_Do env PrimaryEngine c es w;
          (fs, w) = processProxyResponse env resp None 0 0 0 w
      in (as_result err, es @ [UpstreamDo PrimaryEngine resp] @ fs, w))"

text \<open>The cache lookup at the top of the query handler: the keys (0 when the request is not cached) and
  the entry, if there is a non-empty one.\<close>

definition cache_lookup ::
  "'w server_env \<Rightarrow> fiber_ctx \<Rightarrow> GraphQLRequest \<Rightarrow> int \<Rightarrow> 'w \<Rightarrow>
     (http_error, (u64 \<times> u64) \<times> bytes option) result \<times> 'w" where
  "cache_lookup env c graphqlReq ttl w =
     (case env_client env of
        None \<Rightarrow> (Ok ((0, 0), None), w)
      | Some client \<Rightarrow>
          if ttl = 0 then (Ok ((0, 0), None), w)
          else (case CalculateCacheKey (env_jwt env) (parse_unverified env) (format_float env) (ctx_headers c) graphqlReq of
                  Panic p \<Rightarrow> (Panic p, w)
                | Err e \<Rightarrow> (Err e, w)
                | Ok (familyCacheKey, cacheKey) \<Rightarrow>
                    (case RedisCacheClient_Get (env_ops env) client (CreateRedisKey familyCacheKey cacheKey) w of
                       (Inr cacheData, w') \<Rightarrow>
                         (Ok ((familyCacheKey, cacheKey), if length cacheData > 0 then Some cacheData else None), w')
                     | (Inl err, w') \<Rightarrow> (Ok ((familyCacheKey, cacheKey), None), w'))))"

text \<open>The choice of the upstream: the random number is drawn only when the other tests leave it open.\<close>

definition choose_upstream :: "'w server_env \<Rightarrow> startup_context \<Rightarrow> 'w \<Rightarrow> upstream \<times> 'w" where
  "choose_upstream env startupReadonlyCtx w =
     (let engineGqlPvRweight = sint (cfg_weight (env_cfg env))
      in if cfg_replica_urls (env_cfg env) = [] \<or> startup_Err startupReadonlyCtx = None \<or> engineGqlPvRweight \<ge> 100
         then (PrimaryEngine, w)
         else if engineGqlPvRweight > 0
         then (let (r, w') = rand_Intn env 100 w
               in (if int r < engineGqlPvRweight then PrimaryEngine else ReplicaEngine, w'))
         else (ReplicaEngine, w))"

definition upstream_host :: "upstream \<Rightarrow> string" where
  "upstream_host u =
     (case u of PrimaryEngine \<Rightarrow> ''localhost:8881'' | ReplicaEngine \<Rightarrow> ''localhost:8882''
      | ScriptingServer \<Rightarrow> ''localhost:8880'')"

definition forward_query ::
  "'w server_env \<Rightarrow> startup_context \<Rightarrow> fiber_ctx \<Rightarrow> int \<Rightarrow> u64 \<Rightarrow> u64 \<Rightarrow> 'w \<Rightarrow> 'w outcome" where
  "forward_query env startupReadonlyCtx c ttl familyCacheKey cacheKey w =
     (let (u, w) = choose_upstream env startupReadonlyCtx w;
          es = prepareProxyRequest (upstream_host u) ''/v1/graphql'' (ctx_ip c) @ [InjectTraceContext];
          ((err, resp), w) = upstream_Do env u c es w;
          (fs, w) = processProxyResponse env resp (env_client env) ttl familyCacheKey cacheKey w
      in (as_result err, es @ [UpstreamDo u resp] @ fs, w))"

definition graphqlQueryHandler ::
  "'w server_env \<Rightarrow> startup_context \<Rightarrow> fiber_ctx \<Rightarrow> GraphQLRequest \<Rightarrow> 'w \<Rightarrow> 'w outcome" where
  "graphqlQueryHandler env startupReadonlyCtx c graphqlReq w =
     (let ttl = IsCachedQueryGraphQLRequest (cfg_max_ttl (env_cfg env)) graphqlReq
      in case cache_lookup env c graphqlReq ttl w of
           (Panic p, w) \<Rightarrow> (Panic p, [], w)
         | (Err e, w) \<Rightarrow> (Err e, [], w)
         | (Ok ((familyCacheKey, cacheKey), Some cacheData), w) \<Rightarrow>
             (let (r, es) = SendCachedResponseBody (json_unmarshal env) (time_Now (env_ops env) w div Second)
                              (ctx_traceparent c) cacheData familyCacheKey cacheKey
              in (r, es, w))
         | (Ok ((familyCacheKey, cacheKey), None), w) \<Rightarrow>
             forward_query env startupReadonlyCtx c ttl familyCacheKey cacheKey w)"

subsection \<open>The routes of \<open>setupFiber\<close>\<close>

text \<open>The handlers run after \<open>waitForStartupToBeCompleted\<close>, which returns once the startup context is done.\<close>

definition rw_handler ::
  "'w server_env \<Rightarrow> startup_context \<Rightarrow> fiber_ctx \<Rightarrow> 'w \<Rightarrow> 'w outcome" where
  "rw_handler env startupReadonlyCtx c w =
     (case ParseGraphQLRequest (body_parser env) (ctx_body c) of
        Err err \<Rightarrow> (Err err, [], w)
      | Panic p \<Rightarrow> (Panic p, [], w)
      | Ok graphqlReq \<Rightarrow>
          if IsSubscriptionGraphQLRequest graphqlReq
          then (Err (FiberError 403 ''GraphQL Engine Plus does not support subscription yet''), [], w)
          else if IsMutationGraphQLRequest graphqlReq
          then graphqlMutationHandler env c graphqlReq w
          else graphqlQueryHandler env startupReadonlyCtx c graphqlReq w)"

definition ro_handler ::
  "'w server_env \<Rightarrow> startup_context \<Rightarrow> fiber_ctx \<Rightarrow> 'w \<Rightarrow> 'w outcome" where
  "ro_handler env startupReadonlyCtx c w =
     (case ParseGraphQLRequest (body_parser env) (ctx_body c) of
        Err err \<Rightarrow> (Err err, [], w)
      | Panic p \<Rightarrow> (Panic p, [], w)
      | Ok graphqlReq \<Rightarrow>
          if IsMutationGraphQLRequest graphqlReq
          then (Err (FiberError 403 ''readonly endpoint does not allow mutation''), [], w)
          else if IsSubscriptionGraphQLRequest graphqlReq
          then (Err (FiberError 403 ''GraphQL Engine Plus does not support subscription yet''), [], w)
          else graphqlQueryHandler env startupReadonlyCtx c graphqlReq w)"

definition forward_with_proxy ::
  "'w server_env \<Rightarrow> string \<Rightarrow> fiber_ctx \<Rightarrow> 'w \<Rightarrow> 'w outcome" where
  "forward_with_proxy env url c w =
     (case proxy_Do env url c w of
        (Some e, w') \<Rightarrow> (Err (GoError e), [ProxyDo url], w')
      | (None, w') \<Rightarrow> (Ok (), [ProxyDo url, RespHeaderDel ''Server''], w'))"

definition health_check_handler ::
  "'w server_env \<Rightarrow> startup_context \<Rightarrow> startup_context \<Rightarrow> fiber_ctx \<Rightarrow> 'w \<Rightarrow> 'w outcome" where
  "health_check_handler env startupCtx startupReadonlyCtx c w =
     (if startup_Err startupCtx = None then (Ok (), [SendStatus 503], w)
      else forward_with_proxy env
             (if startup_Err startupReadonlyCtx = None
              then ''http://localhost:8880/health/engine?quite=true&not=replica''
              else ''http://localhost:8880/health/engine?quite=true'') c w)"

definition health_handler :: "startup_context \<Rightarrow> 'w \<Rightarrow> 'w outcome" where
  "health_handler startupCtx w =
     (if startup_Err startupCtx = None then (Ok (), [SendStatus 503], w) else (Ok (), [SendStatus 200], w))"

definition meta_handler :: "'w server_env \<Rightarrow> fiber_ctx \<Rightarrow> 'w \<Rightarrow> 'w outcome" where
  "meta_handler env c w = forward_with_proxy env (''http://localhost:8881'' @ ctx_params_plus c) c w"

definition scripting_handler :: "'w server_env \<Rightarrow> fiber_ctx \<Rightarrow> 'w \<Rightarrow> 'w outcome" where
  "scripting_handler env c w =
     (if ctx_execute_secret c = [] \<or> ctx_execute_secret c \<noteq> cfg_execute_secret (env_cfg env)
      then (Err (FiberError 401 ''Unauthorized''), [], w)
      else if \<not> cfg_allow_execurl (env_cfg env) \<and> ctx_execute_url c \<noteq> []
      then (Err (FiberError 403 ''Forbidden''), [], w)
      else (let es = prepareProxyRequest ''localhost:8880'' (ctx_params_plus c) (ctx_ip c) @ [InjectTraceContext];
                ((err, resp), w) = upstream_Do env ScriptingServer c es w;
                (fs, w) = processProxyResponse env resp None 0 0 0 w;
                gs = (if resp_request_id resp = None then [RespHeaderSet ''X-Request-ID'' (ctx_request_id c)] else [])
            in (as_result err, es @ [UpstreamDo ScriptingServer resp] @ fs @ gs, w)))"

text \<open>The routes in the order in which they are registered. The public path of the scripting server goes
  through \<open>StripTrailingSlash\<close> first, whether it is set or not.\<close>

datatype http_method = MethodGet | MethodPost | MethodAll

datatype endpoint = HealthCheck | Health | ReadWrite | ReadOnly | Meta | Scripting

definition setup_routes :: "engine_config \<Rightarrow> (string, (http_method \<times> string \<times> endpoint) list) result" where
  "setup_routes cfg =
     and_then (StripTrailingSlash (cfg_scripting_path cfg)) (\<lambda>scriptingPublicPath.
       Ok ([(MethodGet, cfg_health_path cfg, HealthCheck),
            (MethodGet, ''/health'', Health),
            (MethodPost, cfg_v1_path cfg, ReadWrite),
            (MethodPost, cfg_v1_readonly_path cfg, ReadOnly),
            (MethodAll, cfg_meta_path cfg @ ''+'', Meta)] @
           (if scriptingPublicPath \<noteq> [] then [(MethodAll, scriptingPublicPath @ ''+'', Scripting)] else [])))"

subsection \<open>What the handlers send and return\<close>

lemma sent_to_prepare [simp]: "sent_to (prepareProxyRequest h p ip) = []"
  by (simp add: prepareProxyRequest_def)

lemma sent_to_save [simp]:
  "sent_to (fst (ReadResponseBodyAndSaveToCache ops cl m resp ttl f k w)) = []"
  by (auto simp: ReadResponseBodyAndSaveToCache_def Let_def split: sum.splits prod.splits option.splits)

lemma sent_to_saved: "ReadResponseBodyAndSaveToCache ops cl m resp ttl f k w = (es, w') \<Longrightarrow> sent_to es = []"
  using sent_to_save [of ops cl m resp ttl f k w] by simp

lemma sent_to_process [simp]: "sent_to (fst (processProxyResponse env resp cl ttl f k w)) = []"
  by (auto simp: processProxyResponse_def Let_def dest: sent_to_saved split: option.splits prod.splits)

lemma sent_to_cached [simp]: "sent_to (snd (SendCachedResponseBody um now tp d f k)) = []"
  by (auto simp: SendCachedResponseBody_def Let_def split: result.splits prod.splits)

lemma process_uncached: "processProxyResponse env resp None ttl f k w = ([RespHeaderDel ''Connection''], w)"
  by (simp add: processProxyResponse_def)

lemma forward_query_sends:
  "sent_to (fst (snd (forward_query env ro c ttl f k w))) = [fst (choose_upstream env ro w)]"
proof -
  obtain u w1 where u: "choose_upstream env ro w = (u, w1)" by fastforce
  let ?es = "prepareProxyRequest (upstream_host u) ''/v1/graphql'' (ctx_ip c) @ [InjectTraceContext]"
  obtain err resp w2 where d: "upstream_Do env u c ?es w1 = ((err, resp), w2)" by (metis prod_cases3 prod.collapse)
  obtain fs w3 where p: "processProxyResponse env resp (env_client env) ttl f k w2 = (fs, w3)" by fastforce
  have "sent_to fs = []" using sent_to_process [of env resp "env_client env" ttl f k w2] by (simp add: p)
  then show ?thesis using d p by (simp add: forward_query_def u)
qed

lemma graphqlQueryHandler_sends:
  "length (sent_to (fst (snd (graphqlQueryHandler env ro c req w)))) \<le> 1"
proof -
  obtain r w' where l: "cache_lookup env c req (IsCachedQueryGraphQLRequest (cfg_max_ttl (env_cfg env)) req) w = (r, w')"
    by fastforce
  have s: "sent_to es = []" if "SendCachedResponseBody um now tp d f k = (x, es)" for um now tp d f k x es
    using sent_to_cached [of um now tp d f k] that by simp
  show ?thesis
    by (auto simp: graphqlQueryHandler_def l Let_def s forward_query_sends split: result.splits prod.splits option.splits)
qed

end
