(* ===== verification/Sim_World.thy ===== *)
theory Sim_World
  imports Cache_Client
begin

text \<open>
  A small concrete world for the cache client: a redis store with expiry instants, the locks of the
  getter, a groupcache that holds what it was given, a sink, and a clock that every call moves on. The
  properties are applied in it to show that their hypotheses can hold.
\<close>

record sim =
  sim_now :: int
  sim_store :: "string \<rightharpoonup> bytes \<times> int option"
  sim_locks :: "string \<rightharpoonup> int"
  sim_group :: "string \<rightharpoonup> bytes"
  sim_sink :: "bytes option"
  sim_nodes :: "string list"

definition tick :: "int \<Rightarrow> sim \<Rightarrow> sim" where
  "tick d s = s\<lparr>sim_now := sim_now s + d\<rparr>"

definition sim_live :: "sim \<Rightarrow> string \<Rightarrow> (bytes \<times> int option) option" where
  "sim_live s k =
     (case sim_store s k of
        None \<Rightarrow> None
      | Some (v, None) \<Rightarrow> Some (v, None)
      | Some (v, Some t) \<Rightarrow> if sim_now s < t then Some (v, Some t) else None)"

definition sim_reply :: "sim \<Rightarrow> string \<Rightarrow> bool \<Rightarrow> pipe_reply" where
  "sim_reply s k locked =
     (case sim_live s k of
        None \<Rightarrow> \<lparr>r_get = Inl RedisNil, r_ttl = -2, r_setnx = locked\<rparr>
      | Some (v, None) \<Rightarrow> \<lparr>r_get = Inr v, r_ttl = -1, r_setnx = locked\<rparr>
      | Some (v, Some t) \<Rightarrow> \<lparr>r_get = Inr v, r_ttl = t - sim_now s, r_setnx = locked\<rparr>)"

definition sim_ops :: "sim cache_ops" where
  "sim_ops =
     \<lparr>redis_Set = \<lambda>k v e s. (None, tick 1 (s\<lparr>sim_store := (sim_store s)(k \<mapsto> (v, if 0 < e then Some (sim_now s + e) else None))\<rparr>)),
      reader_Get = \<lambda>k s. ((case sim_live s k of None \<Rightarrow> Inl RedisNil | Some (v, _) \<Rightarrow> Inr v), tick 1 s),
      redis_SRem = \<lambda>k m s. (None, tick 1 (s\<lparr>sim_nodes := removeAll m (sim_nodes s)\<rparr>)),
      group_Get = \<lambda>k s. ((case sim_group s k of None \<Rightarrow> Inl (ErrNotFound []) | Some v \<Rightarrow> Inr v), s),
      group_Set = \<lambda>k v e s. (None, s\<lparr>sim_group := (sim_group s)(k \<mapsto> v)\<rparr>),
      redis_Close = \<lambda>s. (None, s),
      reader_Close = \<lambda>s. (None, s),
      server_Shutdown = \<lambda>s. (None, s),
      pipe_writer = \<lambda>k lock s.
        (case lock of
           None \<Rightarrow> (sim_reply s k False, tick 1 s)
         | Some (n, eta, d) \<Rightarrow>
             (sim_reply s k (sim_locks s n = None),
              tick 1 (if sim_locks s n = None then s\<lparr>sim_locks := (sim_locks s)(n \<mapsto> eta)\<rparr> else s))),
      pipe_reader = \<lambda>k s. (sim_reply s k False, tick 1 s),
      reader_GetInt64 = \<lambda>k s. ((case sim_locks s k of None \<Rightarrow> Inl RedisNil | Some i \<Rightarrow> Inr i), tick 1 s),
      sink_SetBytes = \<lambda>v e s. (None, s\<lparr>sim_sink := Some v\<rparr>),
      time_Now = sim_now,
      time_Sleep = tick,
      ctx_Err = \<lambda>s. None\<rparr>"

definition sim_client :: cache_client where
  "sim_client =
     \<lparr>has_groupcache = True, groupcacheServerUrl = ''http://10.0.0.7:8879'', nodeUrlRegex = Lit ''10.0.0.7:8879''\<rparr>"

definition sim_init :: sim where
  "sim_init = \<lparr>sim_now = 0, sim_store = Map.empty, sim_locks = Map.empty, sim_group = Map.empty,
     sim_sink = None, sim_nodes = []\<rparr>"

end
