(* ===== verification/Cache_Properties.thy ===== *)
theory Cache_Properties
  imports Sim_World
begin

text \<open>
  Properties of the cache client of \<open>src/cache_service.go\<close>: what \<open>Set\<close> reports and what \<open>Get\<close> finds after it,
  the getter's wait loop ends, and a nil answer of the getter has filled the sink with what redis holds.
\<close>

subsection \<open>The wait loop ends\<close>

text \<open>Documented behaviour of the clock: an exchange with the server takes time, and \<open>time.Sleep(d)\<close>
  pauses for at least \<open>d\<close>.\<close>

definition clock_advances :: "'w cache_ops \<Rightarrow> bool" where
  "clock_advances ops \<longleftrightarrow>
     (\<forall>k w. time_Now ops w < time_Now ops (snd (pipe_reader ops k w))) \<and>
     (\<forall>d w. 0 \<le> d \<longrightarrow> time_Now ops w + d \<le> time_Now ops (time_Sleep ops d w))"

lemma clock_advancesD:
  assumes "clock_advances ops"
  shows "pipe_reader ops k w = (reply, w') \<Longrightarrow> time_Now ops w < time_Now ops w'"
    and "time_Now ops w < time_Now ops (time_Sleep ops (5 * Millisecond) w)"
proof -
  show "pipe_reader ops k w = (reply, w') \<Longrightarrow> time_Now ops w < time_Now ops w'"
    using assms by (metis clock_advances_def snd_conv)
  have "time_Now ops w + 5 * Millisecond \<le> time_Now ops (time_Sleep ops (5 * Millisecond) w)"
    using assms by (simp add: clock_advances_def Millisecond_def)
  then show "time_Now ops w < time_Now ops (time_Sleep ops (5 * Millisecond) w)"
    by (simp add: Millisecond_def)
qed

text \<open>The nanoseconds left until \<open>eta\<close>: what every round of the loop uses up.\<close>

definition left_until :: "'w cache_ops \<Rightarrow> int \<Rightarrow> 'w \<Rightarrow> nat" where
  "left_until ops eta w = nat (eta * Millisecond - time_Now ops w)"

lemma UnixMilli_less: "UnixMilli t < eta \<longleftrightarrow> t < eta * Millisecond"
proof -
  have "t = t div 1000000 * 1000000 + t mod 1000000" and "0 \<le> t mod 1000000" and "t mod 1000000 < 1000000"
    by simp_all
  then have "t div 1000000 < eta \<longleftrightarrow> t < eta * 1000000" by linarith
  then show ?thesis by (simp add: UnixMilli_def Millisecond_def)
qed

lemma left_until_less:
  "UnixMilli (time_Now ops w) < eta \<Longrightarrow> time_Now ops w < time_Now ops w' \<Longrightarrow>
     left_until ops eta w' < left_until ops eta w"
  by (simp add: left_until_def UnixMilli_less)

lemma wait_round_later:
  assumes "clock_advances ops" and "wait_round ops cacheKey w = Inr w'"
  shows "time_Now ops w < time_Now ops w'"
proof -
  obtain reply w1 where p: "pipe_reader ops cacheKey w = (reply, w1)" by fastforce
  note clock_advancesD(1) [OF assms(1) p] clock_advancesD(2) [OF assms(1), of w1]
  then show ?thesis
    using assms(2)
    by (auto simp: wait_round_def p Let_def split: if_splits sum.splits redis_error.splits option.splits prod.splits)
qed

lemma wait_loop_enough:
  assumes "clock_advances ops"
  shows "left_until ops eta w < n \<Longrightarrow> \<exists>r. wait_loop n ops cacheKey eta w = Some r"
proof (induction n arbitrary: w)
  case (Suc n)
  have "\<exists>r. wait_loop n ops cacheKey eta w' = Some r"
    if "UnixMilli (time_Now ops w) < eta" "wait_round ops cacheKey w = Inr w'" for w'
    using left_until_less [OF that(1) wait_round_later [OF assms that(2)]] Suc by simp
  then show ?case by (auto split: sum.splits)
qed simp

lemma wait_loop_more_fuel:
  "wait_loop n ops cacheKey eta w = Some r \<Longrightarrow> n \<le> m \<Longrightarrow> wait_loop m ops cacheKey eta w = Some r"
proof (induction n arbitrary: m w)
  case (Suc n)
  then obtain m' where "m = Suc m'" by (cases m) auto
  with Suc show ?case by (auto split: if_splits sum.splits)
qed simp

text \<open>C19. The getter returns: with a clock that advances there is a number of rounds after which it has
  answered, and further rounds do not change the answer. The number is the nanoseconds until the
  instant the lock names.\<close>

theorem getter_returns:
  assumes "clock_advances ops"
  shows "\<exists>n r. \<forall>m \<ge> n. GetterFunc m ops waitETA cacheKey w = Some r"
proof -
  obtain reply d w1 where f: "getter_first_read ops waitETA cacheKey w = (reply, d, w1)"
    by (metis prod_cases3)
  obtain x w2 where e: "reader_GetInt64 ops (etaKey cacheKey) w1 = (x, w2)" by fastforce
  define eta where "eta = (case x of Inl _ \<Rightarrow> d | Inr i \<Rightarrow> i)"
  define n where "n = Suc (left_until ops eta w2)"
  have "left_until ops eta w2 < n" by (simp add: n_def)
  from wait_loop_enough [OF assms this] obtain r where r: "wait_loop n ops cacheKey eta w2 = Some r"
    by blast
  have w: "getter_wait m ops cacheKey d w1 = Some r" if "n \<le> m" for m
    using wait_loop_more_fuel [OF r that] by (auto simp: getter_wait_def e eta_def split: sum.splits)
  show ?thesis
  proof (intro exI allI impI)
    show "GetterFunc m ops waitETA cacheKey w = Some (the (GetterFunc n ops waitETA cacheKey w))"
      if "n \<le> m" for m
      unfolding GetterFunc_def f
      by (cases r, simp add: Let_def w [OF that] w [OF order_refl] split: sum.splits redis_error.splits loop_exit.splits)
  qed
qed

lemma sim_clock_advances: "clock_advances sim_ops"
  by (simp add: clock_advances_def sim_ops_def tick_def)

text \<open>Another process holds the lock of the key here, so the loop is entered.\<close>

theorem getter_returns_witness:
  "\<exists>n r. \<forall>m \<ge> n. GetterFunc m sim_ops 500 ''k'' (sim_init\<lparr>sim_locks := [etaKey ''k'' \<mapsto> 500]\<rparr>) = Some r"
  by (rule getter_returns) (rule sim_clock_advances)

text \<open>A reply of redis for a key, by whichever of the two clients carried the pipeline, with the world after
  it.\<close>

definition redis_replied :: "'w cache_ops \<Rightarrow> string \<Rightarrow> pipe_reply \<Rightarrow> 'w \<Rightarrow> bool" where
  "redis_replied ops k reply w \<longleftrightarrow>
     (\<exists>w0. pipe_reader ops k w0 = (reply, w)) \<or> (\<exists>lock w0. pipe_writer ops k lock w0 = (reply, w))"

definition expiry_of :: "'w cache_ops \<Rightarrow> pipe_reply \<Rightarrow> 'w \<Rightarrow> int option" where
  "expiry_of ops reply w = (if r_ttl reply > 0 then Some (time_Now ops w + r_ttl reply) else None)"

definition filled_from_redis :: "'w cache_ops \<Rightarrow> string \<Rightarrow> 'w \<Rightarrow> bool" where
  "filled_from_redis ops k w' \<longleftrightarrow>
     (\<exists>reply v w. redis_replied ops k reply w \<and> r_get reply = Inr v \<and>
        sink_SetBytes ops v (expiry_of ops reply w) w = (None, w'))"

lemma sink_None: "sink ops d e w = (None, w') \<Longrightarrow> sink_SetBytes ops d e w = (None, w')"
  by (auto simp: sink_def split: prod.splits option.splits)

lemma sink_fills:
  "redis_replied ops k reply w \<Longrightarrow> r_get reply = Inr v \<Longrightarrow> sink ops v (expiry_of ops reply w) w = (None, w') \<Longrightarrow>
     filled_from_redis ops k w'"
  by (auto simp: filled_from_redis_def dest: sink_None)

lemma wait_round_fills_sink:
  assumes "wait_round ops cacheKey w = Inl (Returned None, w')"
  shows "filled_from_redis ops cacheKey w'"
proof -
  obtain reply w1 where p: "pipe_reader ops cacheKey w = (reply, w1)" by fastforce
  then have r: "redis_replied ops cacheKey reply w1" by (auto simp: redis_replied_def)
  obtain v where "r_get reply = Inr v" "sink ops v (expiry_of ops reply w1) w1 = (None, w')"
    using assms
    by (auto simp: wait_round_def p Let_def expiry_of_def
        split: if_splits sum.splits redis_error.splits option.splits prod.splits)
  then show ?thesis by (rule sink_fills [OF r])
qed

lemma wait_loop_fills_sink:
  "wait_loop n ops cacheKey eta w = Some (Returned None, w') \<Longrightarrow> filled_from_redis ops cacheKey w'"
  by (induction n arbitrary: w) (auto dest: wait_round_fills_sink split: if_splits sum.splits)

lemma first_read_replied:
  "getter_first_read ops waitETA k w = (reply, eta, w') \<Longrightarrow> redis_replied ops k reply w'"
  by (auto simp: getter_first_read_def redis_replied_def Let_def split: if_splits prod.splits)

lemma GetterFunc_hit:
  assumes "getter_first_read ops waitETA k w = (reply, eta, w1)" and "r_get reply = Inr v"
  shows "GetterFunc n ops waitETA k w = Some (sink ops v (expiry_of ops reply w1) w1)"
  using assms by (simp add: GetterFunc_def expiry_of_def)

text \<open>When the getter answers nil, the sink has been filled, as its last act, with the bytes redis
  answered for this very key, with the expiry made of the time to live in the same reply: groupcache
  never takes a nil answer without data, nor data of another key.\<close>

theorem getter_nil_fills_sink:
  assumes "GetterFunc n ops waitETA cacheKey w = Some (None, w')"
  shows "filled_from_redis ops cacheKey w'"
proof -
  obtain reply eta w1 where f: "getter_first_read ops waitETA cacheKey w = (reply, eta, w1)"
    by (metis prod_cases3)
  show ?thesis
  proof (cases "r_get reply")
    case (Inr v)
    then show ?thesis
      using assms sink_fills [OF first_read_replied [OF f]] by (simp add: GetterFunc_hit [OF f])
  next
    case (Inl e)
    then show ?thesis
      using assms
      by (auto simp: GetterFunc_def f getter_wait_def dest: wait_loop_fills_sink
          split: if_splits sum.splits redis_error.splits option.splits prod.splits loop_exit.splits)
  qed
qed

definition sim_hit :: sim where
  "sim_hit = sim_init\<lparr>sim_store := [''k'' \<mapsto> (''v'', Some 5)]\<rparr>"

theorem getter_nil_fills_sink_witness:
  "filled_from_redis sim_ops ''k'' (sim_hit\<lparr>sim_now := 1, sim_sink := Some ''v''\<rparr>)"
proof (rule getter_nil_fills_sink)
  show "GetterFunc 1 sim_ops 0 ''k'' sim_hit = Some (None, sim_hit\<lparr>sim_now := 1, sim_sink := Some ''v''\<rparr>)"
    by (simp add: GetterFunc_def getter_first_read_def sink_def sim_ops_def sim_hit_def sim_init_def sim_reply_def
        sim_live_def tick_def Let_def)
qed

text \<open>An entry that redis reports as gone or as having less than half a second left (its \<open>TTL\<close> reply is
  then -2 or 0) is handed to groupcache without an expiry: it stays there although redis drops it.\<close>

theorem getter_pins_expiring_entry:
  assumes "getter_first_read ops waitETA k w = (reply, eta, w1)" and "r_get reply = Inr v"
    and "r_ttl reply = 0 \<or> r_ttl reply = -2" and "sink_SetBytes ops v None w1 = (None, w2)"
  shows "GetterFunc n ops waitETA k w = Some (None, w2)"
  using assms by (auto simp: GetterFunc_hit expiry_of_def sink_def)

definition sim_expiring :: "sim cache_ops" where
  "sim_expiring = sim_ops\<lparr>pipe_reader := \<lambda>k s. (\<lparr>r_get = Inr ''v'', r_ttl = 0, r_setnx = False\<rparr>, s)\<rparr>"

theorem getter_pins_expiring_entry_witness:
  "GetterFunc 1 sim_expiring 0 ''k'' sim_init = Some (None, sim_init\<lparr>sim_sink := Some ''v''\<rparr>)"
proof (rule getter_pins_expiring_entry)
  show "getter_first_read sim_expiring 0 ''k'' sim_init = (\<lparr>r_get = Inr ''v'', r_ttl = 0, r_setnx = False\<rparr>, 0, sim_init)"
    by (simp add: getter_first_read_def sim_expiring_def Let_def)
qed (simp_all add: sim_expiring_def sim_ops_def)

subsection \<open>\<open>Set\<close> and \<open>Get\<close>\<close>

text \<open>Groupcache never makes a \<open>Set\<close> fail: whatever its \<open>Set\<close> and the removal of a failed node answer, \<open>Set\<close>
  reports the same, and when it reports an error neither has been called.\<close>

theorem set_ignores_groupcache_failure:
  fixes ops :: "'w cache_ops"
  defines "ops' \<equiv> \<lambda>g r. ops\<lparr>group_Set := g, redis_SRem := r\<rparr>"
  shows "fst (RedisCacheClient_Set (ops' g r) client key val ttl w) = fst (RedisCacheClient_Set ops client key val ttl w)
    \<and> (fst (RedisCacheClient_Set ops client key val ttl w) = None
       \<or> RedisCacheClient_Set (ops' g r) client key val ttl w = RedisCacheClient_Set ops client key val ttl w)"
  by (auto simp: ops'_def RedisCacheClient_Set_def Let_def split: prod.splits option.splits)

end
