(* ===== verification/Service.thy ===== *)
theory Service
  imports Handlers Cache_Properties
begin

text \<open>
  Properties of the service as a client sees it: what the endpoints of \<open>setupFiber\<close> (\<open>src/main.go\<close>) send to
  which server and when, and what a cached query (\<open>src/fiber_graphql_handler.go\<close>) is answered with.
\<close>

subsection \<open>A concrete environment\<close>

text \<open>The world of \<open>Sim_World\<close>, an upstream that answers every call with one response, a random source that
  always draws 30, and a codec that knows one metadata value.\<close>

definition sim_cfg :: engine_config where
  "sim_cfg =
     \<lparr>cfg_v1_path = ''/v1'', cfg_v1_readonly_path = ''/v1ro'', cfg_health_path = ''/hc'', cfg_meta_path = ''/meta'',
      cfg_scripting_path = ''/x/'', cfg_execute_secret = ''s'', cfg_allow_execurl = False, cfg_weight = 20,
      cfg_replica_urls = ''db'', cfg_max_ttl = 3600\<rparr>"

definition sim_resp :: http_response where
  "sim_resp =
     \<lparr>resp_status = 200, resp_body = ''{}'', resp_content_type = ''json'', resp_content_encoding = [],
      resp_request_id = None\<rparr>"

definition sim_meta :: CacheResponseRedis where
  "sim_meta = cache_meta 60 sim_resp"

definition sim_query :: GraphQLRequest where
  "sim_query = \<lparr>Query = ''query Q @cached(ttl:60)'', Variables = [], OperationName = []\<rparr>"

definition sim_mutation :: GraphQLRequest where
  "sim_mutation = \<lparr>Query = ''mutation { a }'', Variables = [], OperationName = []\<rparr>"

definition sim_env :: "GraphQLRequest \<Rightarrow> sim server_env" where
  "sim_env req =
     \<lparr>env_cfg = sim_cfg, env_ops = sim_ops, env_client = Some sim_client,
      env_jwt = \<lparr>jwt_type = [], jwt_key = [], jwt_header = \<lparr>header_type = []\<rparr>\<rparr>,
      parse_unverified = \<lambda>_. Inl ''bad token'', format_float = \<lambda>_. ''0'',
      body_parser = \<lambda>_. Inr req,
      json_marshal = \<lambda>m. if m = sim_meta then Inr ''M'' else Inl ''no'',
      json_unmarshal = \<lambda>b. if b = ''M'' then Inr sim_meta else Inl ''no'',
      upstream_Do = \<lambda>u c es s. ((None, sim_resp), tick 1 s),
      proxy_Do = \<lambda>u c s. (None, tick 1 s),
      rand_Intn = \<lambda>n s. (30, s)\<rparr>"

definition sim_ctx :: fiber_ctx where
  "sim_ctx =
     \<lparr>ctx_ip = ''1.2.3.4'', ctx_body = [], ctx_headers = [], ctx_params_plus = [], ctx_execute_secret = ''s'',
      ctx_execute_url = [], ctx_request_id = ''r'', ctx_traceparent = []\<rparr>"

lemmas sim_defs = sim_cfg_def sim_resp_def sim_query_def sim_mutation_def sim_env_def sim_ctx_def

lemma sim_mutation_is_mutation: "IsMutationGraphQLRequest sim_mutation"
  by (simp add: IsMutation_keyword sim_mutation_def keyword_at_def is_space_def rx_space_def fold_rune_def
      next_rune_def DecodeRune_def rx_word_ci_def rx_word_def rx_digit_def)

lemma sim_parse: "req = sim_query \<or> req = sim_mutation \<Longrightarrow> ParseGraphQLRequest (body_parser (sim_env req)) b = Ok req"
  by (auto simp: ParseGraphQLRequest_def sim_defs)

lemma sim_key_nonzero: "fnv_Write New64a ''query Q @cached(ttl:60)map[]'' \<noteq> 0"
  by (simp add: fnv_Write_def New64a_def fnv_byte_def fnv_prime_def)

subsection \<open>Properties of the endpoints\<close>

text \<open>C18. The read-only endpoint refuses every request that begins as a mutation or a subscription with
  status 403: nothing is sent to any server, the cache is not looked at, no header is touched.\<close>

theorem readonly_refuses_writes:
  assumes "ParseGraphQLRequest (body_parser env) (ctx_body c) = Ok req"
    and "keyword_at ''mutation'' (Query req) \<or> keyword_at ''subscription'' (Query req)"
  shows "\<exists>msg. ro_handler env ro c w = (Err (FiberError 403 msg), [], w)"
  using assms by (auto simp: ro_handler_def IsMutation_keyword IsSubscription_keyword)

theorem readonly_refuses_writes_witness:
  "\<exists>msg. ro_handler (sim_env sim_mutation) Cancelled sim_ctx sim_init = (Err (FiberError 403 msg), [], sim_init)"
proof (rule readonly_refuses_writes)
  show "ParseGraphQLRequest (body_parser (sim_env sim_mutation)) (ctx_body sim_ctx) = Ok sim_mutation"
    by (rule sim_parse) simp
  show "keyword_at ''mutation'' (Query sim_mutation) \<or> keyword_at ''subscription'' (Query sim_mutation)"
    using sim_mutation_is_mutation by (simp add: IsMutation_keyword)
qed

text \<open>C16. A mutation on the read-write endpoint goes to the primary engine, once, and to nothing else; the
  cache is neither read nor written: the world changes by the upstream call alone.\<close>

theorem mutation_only_to_primary:
  assumes "ParseGraphQLRequest (body_parser env) (ctx_body c) = Ok req" and "IsMutationGraphQLRequest req"
    and "rw_handler env ro c w = (r, es, w')"
  shows "sent_to es = [PrimaryEngine] \<and> (\<exists>fs x. upstream_Do env PrimaryEngine c fs w = (x, w'))"
proof -
  have "\<not> IsSubscriptionGraphQLRequest req"
    using assms(2) keywords_disjoint(2) [of "CHR ''m''" "''utation''" "Query req" "CHR ''s''" "''ubscription''"]
    by (simp add: IsMutation_keyword IsSubscription_keyword fold_rune_def)
  then have "graphqlMutationHandler env c req w = (r, es, w')" using assms by (simp add: rw_handler_def)
  then show ?thesis
    by (auto simp: graphqlMutationHandler_def process_uncached split: prod.splits)
qed

theorem mutation_only_to_primary_witness:
  "\<exists>es w'. sent_to es = [PrimaryEngine] \<and>
     (\<exists>fs x. upstream_Do (sim_env sim_mutation) PrimaryEngine sim_ctx fs sim_init = (x, w'))"
proof -
  obtain r es w' where rw: "rw_handler (sim_env sim_mutation) Cancelled sim_ctx sim_init = (r, es, w')"
    by (metis prod_cases3)
  have "ParseGraphQLRequest (body_parser (sim_env sim_mutation)) (ctx_body sim_ctx) = Ok sim_mutation"
    by (rule sim_parse) simp
  from mutation_only_to_primary [OF this sim_mutation_is_mutation rw] show ?thesis by blast
qed

lemma comment_is_no_keyword: "\<not> keyword_at (CHR ''m'' # v) (CHR ''#'' # t) \<and> \<not> keyword_at (CHR ''s'' # v) (CHR ''#'' # t)"
  by (simp add: keyword_at_def is_space_def rx_space_def fold_rune_def next_rune_def DecodeRune_def)

lemma comment_not_cached: "Query req = CHR ''#'' # t \<Longrightarrow> IsCachedQueryGraphQLRequest maxTTL req = 0"
  using cachedQuery_keyword [of "CHR ''#'' # t"]
  by (auto simp: IsCachedQueryGraphQLRequest_def is_space_def rx_space_def fold_rune_def next_rune_def DecodeRune_def)

text \<open>C38. The read-only endpoint takes a text that begins with a comment for a query: whatever follows, a mutation
  say, is not refused but sent to an engine, the primary one included, which executes it, whether there is a
  cache or not. Such a text never counts as one with the cached directive.\<close>

theorem readonly_passes_commented_mutation:
  assumes "ParseGraphQLRequest (body_parser env) (ctx_body c) = Ok req" and "Query req = CHR ''#'' # t"
  shows "ro_handler env ro c w = graphqlQueryHandler env ro c req w \<and>
    sent_to (fst (snd (ro_handler env ro c w))) = [fst (choose_upstream env ro w)]"
proof -
  have q: "ro_handler env ro c w = graphqlQueryHandler env ro c req w"
    using assms by (simp add: ro_handler_def IsMutation_keyword IsSubscription_keyword comment_is_no_keyword)
  have "cache_lookup env c req 0 w = (Ok ((0, 0), None), w)"
    by (cases "env_client env") (simp_all add: cache_lookup_def)
  with q show ?thesis by (simp add: graphqlQueryHandler_def comment_not_cached [OF assms(2)] forward_query_sends)
qed

definition sim_commented :: GraphQLRequest where
  "sim_commented = \<lparr>Query = ''#'' @ CHR 0x0A # ''mutation { a }'', Variables = [], OperationName = []\<rparr>"

theorem readonly_passes_commented_mutation_witness:
  "sent_to (fst (snd (ro_handler (sim_env sim_commented) Running sim_ctx sim_init))) = [PrimaryEngine] \<and>
     env_client (sim_env sim_commented) = Some sim_client"
proof -
  let ?env = "sim_env sim_commented"
  have p: "ParseGraphQLRequest (body_parser ?env) (ctx_body sim_ctx) = Ok sim_commented"
    by (simp add: ParseGraphQLRequest_def sim_env_def sim_commented_def)
  have q: "Query sim_commented = CHR ''#'' # CHR 0x0A # ''mutation { a }''" by (simp add: sim_commented_def)
  have "choose_upstream ?env Running sim_init = (PrimaryEngine, sim_init)"
    by (simp add: choose_upstream_def startup_Err_def)
  moreover have "env_client ?env = Some sim_client" by (simp add: sim_env_def)
  ultimately show ?thesis
    using conjunct2 [OF readonly_passes_commented_mutation [OF p q, of Running sim_init]] by simp
qed

subsection \<open>Which server a request goes to\<close>

lemma graphqlQueryHandler_sent:
  "sent_to (fst (snd (graphqlQueryHandler env ro c req w))) = [] \<or>
   (\<exists>w'. sent_to (fst (snd (graphqlQueryHandler env ro c req w))) = [fst (choose_upstream env ro w')])"
proof -
  obtain r w' where l: "cache_lookup env c req (IsCachedQueryGraphQLRequest (cfg_max_ttl (env_cfg env)) req) w = (r, w')"
    by fastforce
  have s: "sent_to es = []" if "SendCachedResponseBody um now tp d f k = (x, es)" for um now tp d f k x es
    using sent_to_cached [of um now tp d f k] that by simp
  show ?thesis
    by (auto simp: graphqlQueryHandler_def l Let_def s forward_query_sends split: result.splits prod.splits option.splits)
qed

lemma replica_chosen:
  "fst (choose_upstream env ro w) = ReplicaEngine \<Longrightarrow>
     cfg_replica_urls (env_cfg env) \<noteq> [] \<and> startup_Err ro \<noteq> None \<and> sint (cfg_weight (env_cfg env)) < 100"
  by (auto simp: choose_upstream_def Let_def split: if_splits)

lemma chosen_upstream: "fst (choose_upstream env ro w) \<in> {PrimaryEngine, ReplicaEngine}"
  by (auto simp: choose_upstream_def Let_def split: prod.splits)

lemma mutation_sends: "sent_to (fst (snd (graphqlMutationHandler env c req w))) = [PrimaryEngine]"
  by (auto simp: graphqlMutationHandler_def process_uncached Let_def split: prod.splits)

lemma handler_outcomes:
  assumes "h = rw_handler \<or> h = ro_handler"
  shows "(\<exists>r. h env ro c w = (r, [], w)) \<or>
    (\<exists>req. h env ro c w = graphqlMutationHandler env c req w) \<or>
    (\<exists>req. ParseGraphQLRequest (body_parser env) (ctx_body c) = Ok req \<and> \<not> IsMutationGraphQLRequest req \<and>
       \<not> IsSubscriptionGraphQLRequest req \<and> h env ro c w = graphqlQueryHandler env ro c req w)"
  using assms by (auto simp: rw_handler_def ro_handler_def split: result.splits)

lemma query_sends_one:
  "let sent = sent_to (fst (snd (graphqlQueryHandler env ro c req w)))
   in sent = [] \<or> sent = [PrimaryEngine] \<or>
      sent = [ReplicaEngine] \<and> cfg_replica_urls (env_cfg env) \<noteq> [] \<and> ro \<noteq> Running \<and>
        sint (cfg_weight (env_cfg env)) < 100"
  using graphqlQueryHandler_sent [of env ro c req w]
proof
  assume "\<exists>w'. sent_to (fst (snd (graphqlQueryHandler env ro c req w))) = [fst (choose_upstream env ro w')]"
  then obtain w' where w: "sent_to (fst (snd (graphqlQueryHandler env ro c req w))) = [fst (choose_upstream env ro w')]"
    by blast
  have "startup_Err ro \<noteq> None \<longleftrightarrow> ro \<noteq> Running" by (cases ro) (simp_all add: startup_Err_def)
  then show ?thesis using chosen_upstream [of env ro w'] replica_chosen [of env ro w'] w by (auto simp: Let_def)
qed (simp add: Let_def)

text \<open>C5. The GraphQL endpoints ask at most one engine and never the scripting server, and the replica only
  for a request that is neither a mutation nor a subscription, when there is a replica, its startup is
  no longer running and its share is not zero.\<close>

theorem one_engine_per_request:
  assumes "h = rw_handler \<or> h = ro_handler"
  shows "let sent = sent_to (fst (snd (h env ro c w)))
    in sent = [] \<or> sent = [PrimaryEngine] \<or>
       sent = [ReplicaEngine] \<and> cfg_replica_urls (env_cfg env) \<noteq> [] \<and> ro \<noteq> Running \<and>
         sint (cfg_weight (env_cfg env)) < 100 \<and>
         (\<exists>req. ParseGraphQLRequest (body_parser env) (ctx_body c) = Ok req \<and>
            \<not> IsMutationGraphQLRequest req \<and> \<not> IsSubscriptionGraphQLRequest req)"
  using handler_outcomes [OF assms, of env ro c w]
proof (elim disjE exE conjE)
  fix req
  assume "h env ro c w = graphqlQueryHandler env ro c req w"
    and "ParseGraphQLRequest (body_parser env) (ctx_body c) = Ok req"
    and "\<not> IsMutationGraphQLRequest req" and "\<not> IsSubscriptionGraphQLRequest req"
  then show ?thesis using query_sends_one [of env ro c req w] by (auto simp: Let_def)
qed (simp_all add: Let_def mutation_sends)

theorem one_engine_per_request_witness:
  "sent_to (fst (snd (rw_handler (sim_env sim_query) Running sim_ctx sim_init))) \<in> {[], [PrimaryEngine]}"
  using one_engine_per_request [of rw_handler "sim_env sim_query" Running sim_ctx sim_init] by (auto simp: Let_def)

text \<open>The weight is a percentage: of the hundred numbers the random source can draw, exactly \<open>weight\<close>
  many, within 0 and 100, send the query to the primary engine.\<close>

theorem primary_share:
  assumes "cfg_replica_urls (env_cfg env) \<noteq> []" and "ro \<noteq> Running"
  shows "card {r. r < 100 \<and> fst (choose_upstream (env\<lparr>rand_Intn := \<lambda>n w. (r, w)\<rparr>) ro w) = PrimaryEngine} =
    nat (min 100 (max 0 (sint (cfg_weight (env_cfg env)))))"
proof -
  let ?q = "sint (cfg_weight (env_cfg env))"
  have "startup_Err ro \<noteq> None" using assms(2) by (cases ro) (simp_all add: startup_Err_def)
  then have "{r. r < 100 \<and> fst (choose_upstream (env\<lparr>rand_Intn := \<lambda>n w. (r, w)\<rparr>) ro w) = PrimaryEngine} =
      {r. r < 100 \<and> int r < ?q}"
    using assms(1) by (auto simp: choose_upstream_def Let_def split: if_splits)
  also have "\<dots> = {..< nat (min 100 (max 0 ?q))}" by auto
  finally show ?thesis by simp
qed

theorem primary_share_witness:
  "card {r. r < 100 \<and> fst (choose_upstream (sim_env sim_query\<lparr>rand_Intn := \<lambda>n w. (r, w)\<rparr>) Cancelled sim_init) = PrimaryEngine} = 20"
  using primary_share [of "sim_env sim_query" Cancelled sim_init] by (simp add: sim_env_def sim_cfg_def)

text \<open>A replica whose startup ran into its deadline is used like one that is ready: with a weight of zero
  every query goes to it.\<close>

lemma replica_used_after_deadline:
  assumes "cfg_replica_urls (env_cfg env) \<noteq> []" and "cfg_weight (env_cfg env) = 0"
  shows "choose_upstream env DeadlineExceeded w = (ReplicaEngine, w)"
  using assms by (simp add: choose_upstream_def startup_Err_def)

subsection \<open>The scripting endpoint\<close>

text \<open>The scripting server is asked exactly when the request carries the configured secret, which is not
  the empty one, and names no script of its own unless that is allowed; then it is the only server
  asked. Every other request ends with an error and changes nothing.\<close>

theorem scripting_requires_secret:
  "sent_to (fst (snd (scripting_handler env c w))) =
     (if ctx_execute_secret c \<noteq> [] \<and> ctx_execute_secret c = cfg_execute_secret (env_cfg env) \<and>
         (cfg_allow_execurl (env_cfg env) \<or> ctx_execute_url c = [])
      then [ScriptingServer] else []) \<and>
   (sent_to (fst (snd (scripting_handler env c w))) = [ScriptingServer] \<or>
    (\<exists>code msg. scripting_handler env c w = (Err (FiberError code msg), [], w)))"
  by (auto simp: scripting_handler_def process_uncached Let_def split: prod.splits)

text \<open>Setting up the routes panics when no public path of the scripting server is configured, although
  the endpoint is meant to be optional; with the path \<open>/\<close> there is no endpoint, with any other there is.\<close>

theorem scripting_route_optional:
  "case setup_routes cfg of
     Panic p \<Rightarrow> cfg_scripting_path cfg = [] \<and> p = SliceOutOfRange
   | Err e \<Rightarrow> False
   | Ok routes \<Rightarrow> cfg_scripting_path cfg \<noteq> [] \<and>
       (Scripting \<in> (snd \<circ> snd) ` set routes \<longleftrightarrow> cfg_scripting_path cfg \<noteq> ''/'')"
proof (cases "cfg_scripting_path cfg = []")
  case False
  then obtain p c where p: "cfg_scripting_path cfg = p @ [c]" by (metis rev_exhaust)
  show ?thesis by (auto simp: setup_routes_def StripTrailingSlash_append p go_simps)
qed (simp add: setup_routes_def StripTrailingSlash_Nil go_simps)

end
