(* ===== verification/Cache_Flow.thy ===== *)
theory Cache_Flow
  imports Service
begin

text \<open>
  A failed call of the engine, as the query handler of \<open>src/fiber_graphql_handler.go\<close> deals with it, and the query
  that the later theories apply their properties to.
\<close>

subsection \<open>A failed call\<close>

text \<open>The same environment with the errors of the calls dropped.\<close>

definition forget_error :: "'w server_env \<Rightarrow> 'w server_env" where
  "forget_error env = env\<lparr>upstream_Do := \<lambda>u c es w. (case upstream_Do env u c es w of ((err, resp), w') \<Rightarrow> ((None, resp), w'))\<rparr>"

lemma forget_fields [simp]:
  "env_cfg (forget_error env) = env_cfg env" "env_ops (forget_error env) = env_ops env"
  "env_client (forget_error env) = env_client env" "env_jwt (forget_error env) = env_jwt env"
  "parse_unverified (forget_error env) = parse_unverified env" "format_float (forget_error env) = format_float env"
  "json_marshal (forget_error env) = json_marshal env" "json_unmarshal (forget_error env) = json_unmarshal env"
  "rand_Intn (forget_error env) = rand_Intn env"
  by (simp_all add: forget_error_def)

lemma choose_forget: "choose_upstream (forget_error env) ro w = choose_upstream env ro w"
  by (simp add: choose_upstream_def Let_def)

lemma process_forget: "processProxyResponse (forget_error env) resp cl ttl f k w = processProxyResponse env resp cl ttl f k w"
  by (cases cl) (simp_all add: processProxyResponse_def cong: if_cong)

lemma lookup_forget: "cache_lookup (forget_error env) c req ttl w = cache_lookup env c req ttl w"
  by (cases "env_client env") (simp_all add: cache_lookup_def cong: if_cong result.case_cong)

lemma forward_forget:
  "snd (forward_query (forget_error env) ro c ttl f k w) = snd (forward_query env ro c ttl f k w)"
proof -
  obtain u v where u: "choose_upstream env ro w = (u, v)" by fastforce
  let ?es = "prepareProxyRequest (upstream_host u) ''/v1/graphql'' (ctx_ip c) @ [InjectTraceContext]"
  obtain err resp w2 where d: "upstream_Do env u c ?es v = ((err, resp), w2)" by (metis prod_cases3 prod.collapse)
  then have d': "upstream_Do (forget_error env) u c ?es v = ((None, resp), w2)" by (simp add: forget_error_def)
  show ?thesis
    using d d' by (simp add: forward_query_def choose_forget u process_forget split: prod.split)
qed

text \<open>C37. Whether the call of the engine failed makes no difference to what is done with the response: the
  same headers are set, the same entry is saved, the world ends up the same, only the handler's answer
  is the error. A response object left at its default status 200 by a call that failed is therefore
  saved as an answer.\<close>

theorem handler_ignores_upstream_error:
  "snd (graphqlQueryHandler (forget_error env) ro c req w) = snd (graphqlQueryHandler env ro c req w)"
  by (auto simp: graphqlQueryHandler_def lookup_forget forward_forget Let_def split: prod.splits result.splits option.splits)

subsection \<open>A query\<close>

definition sim_family :: u64 where "sim_family = fnv_Write New64a ''query Q @cached(ttl:60)''"
definition sim_key :: u64 where "sim_key = fnv_Write New64a ''query Q @cached(ttl:60)map[]''"

end
