(* ===== verification/Cache_Runs.thy ===== *)
theory Cache_Runs
  imports Cache_Flow
begin

text \<open>
  The cache over whole runs of the service. The abstract specification is a memory of answers: for every
  Redis key the answers given under it so far; a query is either answered with one of them or forwarded,
  and an answer with status 200 may be remembered. \<open>graphqlQueryHandler\<close> of \<open>src/fiber_graphql_handler.go\<close>
  refines it, with Redis or with groupcache in front, with entries that expire and copies that are
  stale. What is written to the cache, and what a later query with the same key is answered with, follows.
\<close>

subsection \<open>The abstract memory\<close>

text \<open>What the client gets of a remembered answer: body, content type, content encoding.\<close>

type_synonym answer = "bytes \<times> bytes \<times> bytes"
type_synonym memo = "string \<Rightarrow> answer set"

definition answer_of :: "http_response \<Rightarrow> answer" where
  "answer_of resp = (resp_body resp, resp_content_type resp, resp_content_encoding resp)"

datatype served = Replayed answer | Forwarded upstream http_response

inductive memo_step :: "string \<Rightarrow> memo \<Rightarrow> served \<Rightarrow> memo \<Rightarrow> bool" where
  replay: "a \<in> m k \<Longrightarrow> memo_step k m (Replayed a) m"
| forward: "memo_step k m (Forwarded u resp) m"
| remember: "resp_status resp = 200 \<Longrightarrow>
     memo_step k m (Forwarded u resp) (m(k := insert (answer_of resp) (m k)))"

inductive_simps memo_step_Replayed: "memo_step k m (Replayed a) m'"
inductive_simps memo_step_Forwarded: "memo_step k m (Forwarded u resp) m'"

text \<open>How a handler's outcome shows what has been served.\<close>

fun shows_served :: "served \<Rightarrow> (http_error, unit) result \<Rightarrow> effect list \<Rightarrow> bool" where
  "shows_served (Replayed (body, ctype, cenc)) r es \<longleftrightarrow>
     r = Ok () \<and> sent_to es = [] \<and> last es = SendBody 200 body \<and> CtxSet ''Content-Type'' ctype \<in> set es \<and>
     (cenc \<noteq> [] \<longrightarrow> CtxSet ''Content-Encoding'' cenc \<in> set es)"
| "shows_served (Forwarded u resp) r es \<longleftrightarrow> sent_to es = [u] \<and> UpstreamDo u resp \<in> set es"

subsection \<open>What the service relies on\<close>

text \<open>The keys of the locks of the getter, whose values are written with \<open>SETNX\<close>, are none of the keys of
  entries.\<close>

definition lock_key :: "string \<Rightarrow> bool" where
  "lock_key k \<longleftrightarrow> take 12 k = GroupCacheName @ '':''"

lemma etaKey_locks: "lock_key (etaKey k)"
  by (simp add: lock_key_def etaKey_def GroupCacheName_def)

lemma entry_no_lock [simp]: "\<not> lock_key (CreateRedisKey f k)"
  by (simp add: lock_key_def CreateRedisKey_def GroupCacheName_def)

text \<open>\<open>wrote w\<close> are the bytes ever set under each key up to the world \<open>w\<close>. Documented behaviour: a write
  adds at most the bytes it was given, under the key it was given, whether it reports an error or not; a
  read that answers with data, for a key that is not that of a lock, answers with something set under the
  key; nothing else writes.\<close>

definition may_write :: "('w \<Rightarrow> string \<Rightarrow> bytes set) \<Rightarrow> string \<Rightarrow> bytes \<Rightarrow> 'w \<Rightarrow> 'w \<Rightarrow> bool" where
  "may_write wrote k v w w' \<longleftrightarrow> wrote w' = wrote w \<or> wrote w' = (wrote w)(k := insert v (wrote w k))"

definition cache_honest :: "'w cache_ops \<Rightarrow> ('w \<Rightarrow> string \<Rightarrow> bytes set) \<Rightarrow> bool" where
  "cache_honest ops wrote \<longleftrightarrow>
     (\<forall>k v e w r w'. redis_Set ops k v e w = (r, w') \<longrightarrow> may_write wrote k v w w') \<and>
     (\<forall>k v e w r w'. group_Set ops k v e w = (r, w') \<longrightarrow> may_write wrote k v w w') \<and>
     (\<forall>k m w r w'. redis_SRem ops k m w = (r, w') \<longrightarrow> wrote w' = wrote w) \<and>
     (\<forall>k w r w'. reader_Get ops k w = (r, w') \<longrightarrow> wrote w' = wrote w \<and> (\<forall>v. \<not> lock_key k \<longrightarrow> r = Inr v \<longrightarrow> v \<in> wrote w k)) \<and>
     (\<forall>k w r w'. group_Get ops k w = (r, w') \<longrightarrow> wrote w' = wrote w \<and> (\<forall>v. \<not> lock_key k \<longrightarrow> r = Inr v \<longrightarrow> v \<in> wrote w k))"

text \<open>The engines and the random source do not write to the cache, and what an engine answers fits into
  memory, like the metadata of an entry.\<close>

definition engines_apart :: "'w server_env \<Rightarrow> ('w \<Rightarrow> string \<Rightarrow> bytes set) \<Rightarrow> bool" where
  "engines_apart env wrote \<longleftrightarrow>
     (\<forall>u c es w e resp w'. upstream_Do env u c es w = ((e, resp), w') \<longrightarrow>
        wrote w' = wrote w \<and> int (length (resp_body resp)) < 2 ^ 62) \<and>
     (\<forall>n w r w'. rand_Intn env n w = (r, w') \<longrightarrow> wrote w' = wrote w) \<and>
     (\<forall>m b. json_marshal env m = Inr b \<longrightarrow> int (length b) < 2 ^ 61)"

subsection \<open>Reading entries\<close>

definition decode_entry :: "(bytes \<Rightarrow> string + CacheResponseRedis) \<Rightarrow> bytes \<Rightarrow> answer option" where
  "decode_entry unmarshal d =
     (let k = unat (Uint64 (take 8 d))
      in if 8 < length d \<and> 8 + k \<le> length d
         then (case unmarshal (drop (8 + k) d) of
                 Inl e \<Rightarrow> None
               | Inr m \<Rightarrow> Some (take k (drop 8 d), ContentType m, ContentEncoding m))
         else None)"

lemma decode_sent:
  assumes "decode_entry um d = Some (body, ctype, cenc)" and "int (length d) < 2 ^ 63"
  shows "\<exists>m. SendCachedResponseBody um now tp d f k = (Ok (), cached_reply now tp m body f k) \<and>
    ContentType m = ctype \<and> ContentEncoding m = cenc"
proof -
  define n where "n = Uint64 (take 8 d)"
  from assms(1) obtain m where d: "8 < length d" "8 + unat n \<le> length d"
    and m: "um (drop (8 + unat n) d) = Inr m" "body = take (unat n) (drop 8 d)" "ctype = ContentType m" "cenc = ContentEncoding m"
    by (auto simp: decode_entry_def n_def Let_def split: if_splits sum.splits)
  note e = entry_slice [OF d(1) assms(2) n_def]
  have "\<not> int (length d) < int64 (8 + sint n)" using e(1) d(2) by auto
  moreover have "(if a < 0 then 0 else a) = max 0 a" for a :: int by simp
  ultimately show ?thesis
    using d(1) m
    by (intro exI [of _ m]) (simp add: SendCachedResponseBody_def n_def [symmetric] e(3) [OF d(2)] e(4) [OF d(2)] cached_reply_def Let_def)
qed

lemma decode_saved:
  assumes "unmarshal meta = Inr m" and "meta \<noteq> []" and "int (length body) + int (length meta) < 2 ^ 63 - 8"
  shows "decode_entry unmarshal (cache_entry body meta) = Some (body, ContentType m, ContentEncoding m)"
proof -
  let ?d = "cache_entry body meta" and ?k = "word_of_nat (length body) :: u64"
  have w8: "length (PutUint64 ?k) = 8" by (rule le64.enc_width)
  have k: "Uint64 (take 8 ?d) = ?k" unfolding cache_entry_def by (rule le64.dec_front)
  have "length body < 2 ^ 64" using assms(3) by simp
  then have n: "unat ?k = length body" by (simp add: unsigned_of_nat take_bit_nat_eq_self)
  have "drop 8 ?d = body @ meta" unfolding cache_entry_def by (rule le64.rest_behind)
  then have "take (length body) (drop 8 ?d) = body" "drop (8 + length body) ?d = meta"
    by simp_all (simp add: add.commute flip: drop_drop)
  moreover have "8 < length ?d" "8 + length body \<le> length ?d" using assms(2) by (simp_all add: cache_entry_def w8)
  ultimately show ?thesis unfolding decode_entry_def k n Let_def using assms(1) by simp
qed

subsection \<open>The refinement\<close>

definition remembered :: "'w server_env \<Rightarrow> ('w \<Rightarrow> string \<Rightarrow> bytes set) \<Rightarrow> 'w \<Rightarrow> memo" where
  "remembered env wrote w = (\<lambda>rk. {a. \<exists>d \<in> wrote w rk. decode_entry (json_unmarshal env) d = Some a})"

text \<open>All that has been written can be read back.\<close>

definition sound_cache :: "'w server_env \<Rightarrow> ('w \<Rightarrow> string \<Rightarrow> bytes set) \<Rightarrow> 'w \<Rightarrow> bool" where
  "sound_cache env wrote w \<longleftrightarrow>
     (\<forall>rk. \<forall>d \<in> wrote w rk. int (length d) < 2 ^ 63 \<and> decode_entry (json_unmarshal env) d \<noteq> None)"

lemma cache_honestD:
  assumes "cache_honest ops wrote"
  shows "redis_Set ops k v e w = (r, w') \<Longrightarrow> may_write wrote k v w w'"
    and "group_Set ops k v e' w = (s, w') \<Longrightarrow> may_write wrote k v w w'"
    and "redis_SRem ops k m w = (r, w') \<Longrightarrow> wrote w' = wrote w"
    and "reader_Get ops k w = (x, w') \<Longrightarrow> wrote w' = wrote w \<and> (\<forall>v. \<not> lock_key k \<longrightarrow> x = Inr v \<longrightarrow> v \<in> wrote w k)"
    and "group_Get ops k w = (y, w') \<Longrightarrow> wrote w' = wrote w \<and> (\<forall>v. \<not> lock_key k \<longrightarrow> y = Inr v \<longrightarrow> v \<in> wrote w k)"
  using assms by (simp_all add: cache_honest_def)

lemma may_write_same: "may_write wrote k v w w' \<Longrightarrow> wrote w'' = wrote w' \<Longrightarrow> may_write wrote k v w w''"
  by (simp add: may_write_def)

lemma may_write_trans: "may_write wrote k v w w' \<Longrightarrow> may_write wrote k v w' w'' \<Longrightarrow> may_write wrote k v w w''"
  by (auto simp: may_write_def)

lemma Get_honest:
  assumes "cache_honest ops wrote" and "RedisCacheClient_Get ops client k w = (r, w')"
  shows "wrote w' = wrote w \<and> (\<forall>v. \<not> lock_key k \<longrightarrow> r = Inr v \<longrightarrow> v \<in> wrote w k)"
  using assms(2) cache_honestD(4,5) [OF assms(1)]
  by (fastforce simp: RedisCacheClient_Get_def split: if_splits sum.splits prod.splits)

lemma drop_failed_node_honest:
  assumes "cache_honest ops wrote"
  shows "wrote (drop_failed_node ops client msg w) = wrote w"
proof -
  have "wrote (snd (redis_SRem ops k m w)) = wrote w" for k m
    by (rule cache_honestD(3) [OF assms, of k m w "fst (redis_SRem ops k m w)"]) simp
  then show ?thesis by (simp add: drop_failed_node_def Let_def)
qed

lemma Set_honest:
  assumes h: "cache_honest ops wrote" and "RedisCacheClient_Set ops client k v ttl w = (r, w')"
  shows "may_write wrote k v w w'"
proof (cases "ttl = -1 \<or> ttl > 0")
  case True
  let ?e = "if ttl > 0 then int64 (ttl * Second) else 0"
  obtain x w1 where set: "redis_Set ops k v ?e w = (x, w1)" by fastforce
  note w1 = cache_honestD(1) [OF h set]
  obtain y w2 where grp: "group_Set ops k v (if ttl > 0 then Some (time_Now ops w1 + int64 (ttl * Second)) else None) w1 = (y, w2)"
    by fastforce
  note w2 = may_write_trans [OF w1 cache_honestD(2) [OF h grp]]
  have "w' = w1 \<or> w' = w2 \<or> (\<exists>msg. w' = drop_failed_node ops client msg w2)"
    using assms(2) True set grp by (auto simp: RedisCacheClient_Set_def Let_def split: if_splits option.splits)
  then show ?thesis
    using w1 w2 may_write_same [OF w2 drop_failed_node_honest [OF h]] by blast
next
  case False
  then show ?thesis using assms(2) by (auto simp: RedisCacheClient_Set_def may_write_def)
qed

lemma save_honest:
  assumes "cache_honest ops wrote"
    and "ReadResponseBodyAndSaveToCache ops client marshal resp ttl f k w = (es, w')"
  shows "wrote w' = wrote w \<or>
    (\<exists>t meta. marshal (cache_meta t resp) = Inr meta \<and>
       may_write wrote (CreateRedisKey f k) (cache_entry (resp_body resp) meta) w w')"
  using assms(2) Set_honest [OF assms(1)]
  by (fastforce simp: ReadResponseBodyAndSaveToCache_def Let_def split: sum.splits prod.splits option.splits)

lemma process_honest:
  assumes "cache_honest (env_ops env) wrote" and "processProxyResponse env resp cl ttl f k w = (es, w')"
  shows "wrote w' = wrote w \<or> resp_status resp = 200 \<and> k \<noteq> 0 \<and>
    (\<exists>t meta. json_marshal env (cache_meta t resp) = Inr meta \<and>
       may_write wrote (CreateRedisKey f k) (cache_entry (resp_body resp) meta) w w')"
  using assms(2) save_honest [OF assms(1)]
  by (fastforce simp: processProxyResponse_def Let_def word_gt_0 split: option.splits if_splits prod.splits)

lemma write_remembers:
  assumes codec: "json_codec (json_marshal env) (json_unmarshal env)" and apart: "engines_apart env wrote"
    and meta: "json_marshal env (cache_meta t resp) = Inr meta" and body: "int (length (resp_body resp)) < 2 ^ 62"
    and w: "may_write wrote rk (cache_entry (resp_body resp) meta) w w'" and sound: "sound_cache env wrote w"
  shows "sound_cache env wrote w' \<and> (remembered env wrote w' = remembered env wrote w \<or>
    remembered env wrote w' = (remembered env wrote w)(rk := insert (answer_of resp) (remembered env wrote w rk)))"
proof -
  have m: "json_unmarshal env meta = Inr (cache_meta t resp)" "meta \<noteq> []" and l: "int (length meta) < 2 ^ 61"
    using codec apart meta by (auto simp: json_codec_def engines_apart_def)
  have len: "int (length (resp_body resp)) + int (length meta) < 2 ^ 63 - 8" using body l by simp
  have w8: "length (PutUint64 x) = 8" for x by (rule le64.enc_width)
  have d: "decode_entry (json_unmarshal env) (cache_entry (resp_body resp) meta) = Some (answer_of resp)"
    using decode_saved [of "json_unmarshal env", OF m len] by (simp add: answer_of_def cache_meta_def)
  have fits: "int (length (cache_entry (resp_body resp) meta)) < 2 ^ 63" using len by (simp add: cache_entry_def w8)
  from w show ?thesis
    unfolding may_write_def
  proof
    assume "wrote w' = wrote w"
    then show ?thesis using sound by (simp add: sound_cache_def remembered_def)
  next
    assume eq: "wrote w' = (wrote w)(rk := insert (cache_entry (resp_body resp) meta) (wrote w rk))"
    have "remembered env wrote w' = (remembered env wrote w)(rk := insert (answer_of resp) (remembered env wrote w rk))"
      using d by (auto simp: remembered_def eq fun_eq_iff)
    then show ?thesis using sound d fits by (auto simp: sound_cache_def answer_of_def eq)
  qed
qed

lemma lookup_honest:
  assumes "cache_honest (env_ops env) wrote"
    and "CalculateCacheKey (env_jwt env) (parse_unverified env) (format_float env) (ctx_headers c) req = Ok (f, k)"
    and "cache_lookup env c req ttl w = (x, w0)"
  shows "wrote w0 = wrote w \<and> (x = Ok ((0, 0), None) \<or> x = Ok ((f, k), None) \<or>
    (\<exists>d. x = Ok ((f, k), Some d) \<and> d \<in> wrote w (CreateRedisKey f k)))"
  using assms(2,3) Get_honest [OF assms(1)]
  by (fastforce simp: cache_lookup_def split: option.splits if_splits sum.splits prod.splits)

lemma forward_honest:
  assumes h: "cache_honest (env_ops env) wrote" and apart: "engines_apart env wrote"
    and "forward_query env ro c ttl f k w = (r, es, w')"
  shows "\<exists>u resp w1. sent_to es = [u] \<and> UpstreamDo u resp \<in> set es \<and> int (length (resp_body resp)) < 2 ^ 62 \<and>
    wrote w1 = wrote w \<and> (wrote w' = wrote w1 \<or> resp_status resp = 200 \<and> k \<noteq> 0 \<and>
      (\<exists>t meta. json_marshal env (cache_meta t resp) = Inr meta \<and>
         may_write wrote (CreateRedisKey f k) (cache_entry (resp_body resp) meta) w1 w'))"
proof -
  obtain u v where u: "choose_upstream env ro w = (u, v)" by fastforce
  let ?es = "prepareProxyRequest (upstream_host u) ''/v1/graphql'' (ctx_ip c) @ [InjectTraceContext]"
  obtain err resp w2 where d: "upstream_Do env u c ?es v = ((err, resp), w2)" by (metis prod_cases3 prod.collapse)
  obtain fs w3 where p: "processProxyResponse env resp (env_client env) ttl f k w2 = (fs, w3)" by fastforce
  have es: "es = ?es @ [UpstreamDo u resp] @ fs" and w3: "w3 = w'"
    using assms(3) d p by (simp_all add: forward_query_def u)
  have "wrote v = wrote w"
    using u apart by (auto simp: choose_upstream_def engines_apart_def Let_def split: if_splits prod.splits)
  moreover have "wrote w2 = wrote v" and "int (length (resp_body resp)) < 2 ^ 62"
    using apart d unfolding engines_apart_def by blast+
  moreover have "sent_to fs = []" using sent_to_process [of env resp "env_client env" ttl f k w2] by (simp add: p)
  ultimately show ?thesis using process_honest [OF h p] by (auto simp: es w3)
qed

lemma query_refines:
  assumes laws: "cache_honest (env_ops env) wrote" "json_codec (json_marshal env) (json_unmarshal env)" "engines_apart env wrote"
    and sound: "sound_cache env wrote w"
    and key: "CalculateCacheKey (env_jwt env) (parse_unverified env) (format_float env) (ctx_headers c) req = Ok (f, k)"
    and run: "graphqlQueryHandler env ro c req w = (r, es, w')"
  shows "\<exists>served. shows_served served r es \<and>
    memo_step (CreateRedisKey f k) (remembered env wrote w) served (remembered env wrote w') \<and> sound_cache env wrote w'"
proof -
  let ?ttl = "IsCachedQueryGraphQLRequest (cfg_max_ttl (env_cfg env)) req"
  obtain x w0 where l: "cache_lookup env c req ?ttl w = (x, w0)" by fastforce
  note x = lookup_honest [OF laws(1) key l]
  have same: "sound_cache env wrote w0" "remembered env wrote w0 = remembered env wrote w"
    using x sound by (simp_all add: sound_cache_def remembered_def)
  show ?thesis
  proof (cases "\<exists>d. x = Ok ((f, k), Some d)")
    case True
    then obtain d where d: "x = Ok ((f, k), Some d)" "d \<in> wrote w (CreateRedisKey f k)" using x by auto
    then obtain body ctype cenc where e: "decode_entry (json_unmarshal env) d = Some (body, ctype, cenc)"
      and len: "int (length d) < 2 ^ 63" using sound by (fastforce simp: sound_cache_def)
    then have "(body, ctype, cenc) \<in> remembered env wrote w (CreateRedisKey f k)"
      using d(2) by (auto simp: remembered_def)
    moreover have "shows_served (Replayed (body, ctype, cenc)) r es \<and> w' = w0"
      using run decode_sent [OF e len, of "time_Now (env_ops env) w0 div Second" "ctx_traceparent c" f k]
      by (auto simp: graphqlQueryHandler_def l d(1) cached_reply_def)
    ultimately show ?thesis using same replay by metis
  next
    case False
    then obtain f' k' where x': "x = Ok ((f', k'), None)" and k': "k' \<noteq> 0 \<longrightarrow> f' = f \<and> k' = k" using x by auto
    then have "forward_query env ro c ?ttl f' k' w0 = (r, es, w')" using run by (simp add: graphqlQueryHandler_def l)
    from forward_honest [OF laws(1,3) this] obtain u resp w1 where
      u: "sent_to es = [u]" "UpstreamDo u resp \<in> set es" "int (length (resp_body resp)) < 2 ^ 62"
      and w1: "wrote w1 = wrote w0" and wr: "wrote w' = wrote w1 \<or> resp_status resp = 200 \<and> k' \<noteq> 0 \<and>
      (\<exists>t meta. json_marshal env (cache_meta t resp) = Inr meta \<and>
         may_write wrote (CreateRedisKey f' k') (cache_entry (resp_body resp) meta) w1 w')" by blast
    have sound1: "sound_cache env wrote w1" "remembered env wrote w1 = remembered env wrote w"
      using same w1 by (simp_all add: sound_cache_def remembered_def)
    have "sound_cache env wrote w' \<and> memo_step (CreateRedisKey f k) (remembered env wrote w) (Forwarded u resp) (remembered env wrote w')"
      using wr
    proof (elim disjE conjE exE)
      assume "wrote w' = wrote w1"
      then show ?thesis using sound1 forward by (simp add: sound_cache_def remembered_def)
    next
      fix t meta
      assume "resp_status resp = 200" "k' \<noteq> 0" "json_marshal env (cache_meta t resp) = Inr meta"
        "may_write wrote (CreateRedisKey f' k') (cache_entry (resp_body resp) meta) w1 w'"
      then show ?thesis
        using write_remembers [OF laws(2,3) _ u(3) _ sound1(1)] sound1(2) k'
        by (auto simp: memo_step_Forwarded)
    qed
    then show ?thesis using u by (auto intro!: exI [of _ "Forwarded u resp"])
  qed
qed

text \<open>C2. The query handler refines the memory of answers: it either answers with a remembered answer for the
  Redis key of the request, sending nothing, or asks one engine and remembers at most its answer, under
  that key and with status 200 only. Everything written stays readable.\<close>

theorem memo_refinement:
  assumes "cache_honest (env_ops env) wrote" and "json_codec (json_marshal env) (json_unmarshal env)"
    and "engines_apart env wrote" and "sound_cache env wrote w"
    and "CalculateCacheKey (env_jwt env) (parse_unverified env) (format_float env) (ctx_headers c) req = Ok (f, k)"
    and "graphqlQueryHandler env ro c req w = (r, es, w')"
  shows "\<exists>served. shows_served served r es \<and>
    memo_step (CreateRedisKey f k) (remembered env wrote w) served (remembered env wrote w') \<and> sound_cache env wrote w'"
  using assms by (rule query_refines)

subsection \<open>What is saved, and what is replayed\<close>

lemma save_calls:
  assumes "ReadResponseBodyAndSaveToCache ops client marshal resp ttl f k w = (es, w')" and "wrote w' \<noteq> wrote w"
  shows "\<exists>t meta x. marshal (cache_meta t resp) = Inr meta \<and>
    RedisCacheClient_Set ops client (CreateRedisKey f k) (cache_entry (resp_body resp) meta) ttl w = (x, w')"
  using assms by (auto simp: ReadResponseBodyAndSaveToCache_def Let_def split: sum.splits prod.splits option.splits)

lemma process_writes:
  assumes "processProxyResponse env resp cl ttl f k w = (es, w')" and "wrote w' \<noteq> wrote w"
  shows "\<exists>client t meta x. cl = Some client \<and> ttl \<noteq> 0 \<and> k \<noteq> 0 \<and> resp_status resp = 200 \<and>
    json_marshal env (cache_meta t resp) = Inr meta \<and>
    RedisCacheClient_Set (env_ops env) client (CreateRedisKey f k) (cache_entry (resp_body resp) meta) ttl w = (x, w')"
  using assms save_calls [of "env_ops env" _ "json_marshal env" resp ttl f k w]
  by (fastforce simp: processProxyResponse_def Let_def word_gt_0 split: option.splits if_splits prod.splits)

lemma lookup_writes_nothing:
  assumes "cache_honest (env_ops env) wrote" and "cache_lookup env c req ttl w = (x, w0)"
  shows "wrote w0 = wrote w"
  using assms(2) Get_honest [OF assms(1)]
  by (fastforce simp: cache_lookup_def split: option.splits if_splits result.splits sum.splits prod.splits)

lemma lookup_key:
  assumes "cache_lookup env c req ttl w = (Ok ((f, k), found), w0)" and "k \<noteq> 0"
  shows "CalculateCacheKey (env_jwt env) (parse_unverified env) (format_float env) (ctx_headers c) req = Ok (f, k)"
  using assms by (auto simp: cache_lookup_def split: option.splits if_splits result.splits sum.splits prod.splits)

text \<open>The only write of a query.\<close>

lemma query_writes:
  assumes h: "cache_honest (env_ops env) wrote" and apart: "engines_apart env wrote"
    and run: "graphqlQueryHandler env ro c req w = (r, es, w')" and new: "wrote w' \<noteq> wrote w"
    and ttl: "ttl = IsCachedQueryGraphQLRequest (cfg_max_ttl (env_cfg env)) req"
  shows "\<exists>client f k u resp t meta x w1 e fs v. upstream_Do env u c fs v = ((e, resp), w1) \<and> env_client env = Some client \<and> ttl \<noteq> 0 \<and>
    CalculateCacheKey (env_jwt env) (parse_unverified env) (format_float env) (ctx_headers c) req = Ok (f, k) \<and>
    sent_to es = [u] \<and> UpstreamDo u resp \<in> set es \<and> resp_status resp = 200 \<and> int (length (resp_body resp)) < 2 ^ 62 \<and>
    json_marshal env (cache_meta t resp) = Inr meta \<and> wrote w1 = wrote w \<and>
    RedisCacheClient_Set (env_ops env) client (CreateRedisKey f k) (cache_entry (resp_body resp) meta) ttl w1 = (x, w') \<and>
    wrote w' = (wrote w)(CreateRedisKey f k := insert (cache_entry (resp_body resp) meta) (wrote w (CreateRedisKey f k)))"
proof -
  obtain x w0 where l: "cache_lookup env c req ttl w = (x, w0)" by fastforce
  note w0 = lookup_writes_nothing [OF h l]
  obtain f k where x: "x = Ok ((f, k), None)" and fwd: "forward_query env ro c ttl f k w0 = (r, es, w')"
    using run new w0 by (auto simp: graphqlQueryHandler_def Let_def l ttl [symmetric] split: result.splits prod.splits option.splits)
  obtain u v where u: "choose_upstream env ro w0 = (u, v)" by fastforce
  let ?es = "prepareProxyRequest (upstream_host u) ''/v1/graphql'' (ctx_ip c) @ [InjectTraceContext]"
  obtain err resp w2 where d: "upstream_Do env u c ?es v = ((err, resp), w2)" by (metis prod_cases3 prod.collapse)
  obtain fs w3 where p: "processProxyResponse env resp (env_client env) ttl f k w2 = (fs, w3)" by fastforce
  have es: "es = ?es @ [UpstreamDo u resp] @ fs" and w3: "w3 = w'"
    using fwd d p by (simp_all add: forward_query_def u)
  have "wrote v = wrote w0"
    using u apart by (auto simp: choose_upstream_def engines_apart_def Let_def split: if_splits prod.splits)
  moreover have "wrote w2 = wrote v" and len: "int (length (resp_body resp)) < 2 ^ 62"
    using apart d unfolding engines_apart_def by blast+
  ultimately have w2: "wrote w2 = wrote w" using w0 by simp
  with new have "wrote w' \<noteq> wrote w2" by simp
  from process_writes [OF p [unfolded w3] this] obtain client t meta y where
    s: "env_client env = Some client" "ttl \<noteq> 0" "k \<noteq> 0" "resp_status resp = 200" "json_marshal env (cache_meta t resp) = Inr meta"
      "RedisCacheClient_Set (env_ops env) client (CreateRedisKey f k) (cache_entry (resp_body resp) meta) ttl w2 = (y, w')" by blast
  have "may_write wrote (CreateRedisKey f k) (cache_entry (resp_body resp) meta) w2 w'" by (rule Set_honest [OF h s(6)])
  then have wr: "wrote w' = (wrote w)(CreateRedisKey f k := insert (cache_entry (resp_body resp) meta) (wrote w (CreateRedisKey f k)))"
    using new w2 by (simp add: may_write_def)
  have "sent_to fs = []" using sent_to_process [of env resp "env_client env" ttl f k w2] by (simp add: p)
  then have "sent_to es = [u]" "UpstreamDo u resp \<in> set es" by (simp_all add: es)
  with d s len w2 wr lookup_key [OF l [unfolded x] s(3)] show ?thesis by blast
qed

text \<open>C20. A query writes to the cache at most once: only if it has the cached directive with a time to live that is
  not zero, only what its one upstream call left in the response with status 200, under the key of this
  request, as the entry made of that response and with the time to live of the directive. The response is an
  answer of the engine when the call succeeded; a call that failed can leave one as well.\<close>

theorem saved_answers:
  assumes "cache_honest (env_ops env) wrote" and "engines_apart env wrote"
    and "graphqlQueryHandler env ro c req w = (r, es, w')" and "wrote w' \<noteq> wrote w"
    and "ttl = IsCachedQueryGraphQLRequest (cfg_max_ttl (env_cfg env)) req"
  shows "\<exists>client f k u resp t meta x w1. env_client env = Some client \<and> ttl \<noteq> 0 \<and>
    CalculateCacheKey (env_jwt env) (parse_unverified env) (format_float env) (ctx_headers c) req = Ok (f, k) \<and>
    sent_to es = [u] \<and> UpstreamDo u resp \<in> set es \<and> resp_status resp = 200 \<and>
    json_marshal env (cache_meta t resp) = Inr meta \<and> wrote w1 = wrote w \<and>
    RedisCacheClient_Set (env_ops env) client (CreateRedisKey f k) (cache_entry (resp_body resp) meta) ttl w1 = (x, w') \<and>
    wrote w' = (wrote w)(CreateRedisKey f k := insert (cache_entry (resp_body resp) meta) (wrote w (CreateRedisKey f k)))"
  using query_writes [OF assms] by blast

lemma cache_lookup_hit:
  assumes "env_client env = Some client" and "ttl \<noteq> 0"
    and "CalculateCacheKey (env_jwt env) (parse_unverified env) (format_float env) (ctx_headers c) req = Ok (f, k)"
    and "RedisCacheClient_Get (env_ops env) client (CreateRedisKey f k) w = (Inr d, w')" and "d \<noteq> []"
  shows "cache_lookup env c req ttl w = (Ok ((f, k), Some d), w')"
  using assms by (simp add: cache_lookup_def)

lemma hit_replays:
  assumes laws: "cache_honest (env_ops env) wrote" "json_codec (json_marshal env) (json_unmarshal env)" "engines_apart env wrote"
    and client: "env_client env = Some client"
    and first: "graphqlQueryHandler env ro c req w = (r, es, w1)"
    and key: "CalculateCacheKey (env_jwt env) (parse_unverified env) (format_float env) (ctx_headers c) req = Ok (f, k)"
    and same: "CalculateCacheKey (env_jwt env) (parse_unverified env) (format_float env) (ctx_headers c2) req2 = Ok (f, k)"
      "IsCachedQueryGraphQLRequest (cfg_max_ttl (env_cfg env)) req2 \<noteq> 0"
    and alone: "wrote w (CreateRedisKey f k) = {}" "wrote w2 (CreateRedisKey f k) = wrote w1 (CreateRedisKey f k)"
    and found: "RedisCacheClient_Get (env_ops env) client (CreateRedisKey f k) w2 = (Inr d, w3)"
  shows "\<exists>u resp es2 e fs v v'. upstream_Do env u c fs v = ((e, resp), v') \<and> sent_to es = [u] \<and> UpstreamDo u resp \<in> set es \<and> resp_status resp = 200 \<and>
    graphqlQueryHandler env ro2 c2 req2 w2 = (Ok (), es2, w3) \<and> sent_to es2 = [] \<and>
    last es2 = SendBody 200 (resp_body resp) \<and> CtxSet ''Content-Type'' (resp_content_type resp) \<in> set es2 \<and>
    (resp_content_encoding resp \<noteq> [] \<longrightarrow> CtxSet ''Content-Encoding'' (resp_content_encoding resp) \<in> set es2)"
proof -
  have d: "d \<in> wrote w1 (CreateRedisKey f k)" using Get_honest [OF laws(1) found] alone(2) by auto
  with alone(1) have "wrote w1 \<noteq> wrote w" by auto
  from query_writes [OF laws(1,3) first this refl] key obtain u resp t meta e fs v v' where
    up: "upstream_Do env u c fs v = ((e, resp), v')" and u: "sent_to es = [u]" "UpstreamDo u resp \<in> set es" "resp_status resp = 200" and len: "int (length (resp_body resp)) < 2 ^ 62"
    and meta: "json_marshal env (cache_meta t resp) = Inr meta"
    and w1: "wrote w1 = (wrote w)(CreateRedisKey f k := insert (cache_entry (resp_body resp) meta) (wrote w (CreateRedisKey f k)))"
    by auto
  have m: "meta \<noteq> []" "json_unmarshal env meta = Inr (cache_meta t resp)" "int (length meta) < 2 ^ 61"
    using laws(2,3) meta by (auto simp: json_codec_def engines_apart_def)
  have e: "d = cache_entry (resp_body resp) meta" using d alone(1) by (simp add: w1)
  have ne: "d \<noteq> []" by (simp add: e cache_entry_def PutUint64_def)
  have "int (length (resp_body resp)) + int (length meta) < 2 ^ 63 - 8" using len m(3) by simp
  from read_saved_entry [of meta "json_unmarshal env", OF m(1,2) this] cache_lookup_hit [OF client same(2,1) found ne]
  have "\<exists>es2. graphqlQueryHandler env ro2 c2 req2 w2 = (Ok (), es2, w3) \<and> sent_to es2 = [] \<and>
    last es2 = SendBody 200 (resp_body resp) \<and> CtxSet ''Content-Type'' (resp_content_type resp) \<in> set es2 \<and>
    (resp_content_encoding resp \<noteq> [] \<longrightarrow> CtxSet ''Content-Encoding'' (resp_content_encoding resp) \<in> set es2)"
    by (auto simp: graphqlQueryHandler_def e cache_meta_def cached_reply_def)
  with up u show ?thesis by blast
qed

text \<open>C4. Miss, then hit: when nothing has been written under the key of a query before, and nothing but this query
  writes there, then a later query with the same cache key that finds an entry is answered with the very body,
  content type and encoding that the one upstream call of the first query left, with status 200, and no
  server is asked. The first query has then written its answer, which had status 200.\<close>

theorem hit_replays_saved_answer:
  assumes "cache_honest (env_ops env) wrote" and "json_codec (json_marshal env) (json_unmarshal env)" and "engines_apart env wrote"
    and "env_client env = Some client"
    and "graphqlQueryHandler env ro c req w = (r, es, w1)"
    and "CalculateCacheKey (env_jwt env) (parse_unverified env) (format_float env) (ctx_headers c) req = Ok (f, k)"
    and "CalculateCacheKey (env_jwt env) (parse_unverified env) (format_float env) (ctx_headers c2) req2 = Ok (f, k)"
    and "IsCachedQueryGraphQLRequest (cfg_max_ttl (env_cfg env)) req2 \<noteq> 0"
    and "wrote w (CreateRedisKey f k) = {}" and "wrote w2 (CreateRedisKey f k) = wrote w1 (CreateRedisKey f k)"
    and "RedisCacheClient_Get (env_ops env) client (CreateRedisKey f k) w2 = (Inr d, w3)"
  shows "\<exists>u resp es2. sent_to es = [u] \<and> UpstreamDo u resp \<in> set es \<and> resp_status resp = 200 \<and>
    graphqlQueryHandler env ro2 c2 req2 w2 = (Ok (), es2, w3) \<and> sent_to es2 = [] \<and>
    last es2 = SendBody 200 (resp_body resp) \<and> CtxSet ''Content-Type'' (resp_content_type resp) \<in> set es2 \<and>
    (resp_content_encoding resp \<noteq> [] \<longrightarrow> CtxSet ''Content-Encoding'' (resp_content_encoding resp) \<in> set es2)"
  using hit_replays [OF assms, of ro2] by blast

subsection \<open>A concrete world\<close>

text \<open>A world that is the list of all writes, the latest first, with an upstream that answers every call
  alike, and the same query twice.\<close>

type_synonym write_log = "(string \<times> bytes) list"

definition written :: "write_log \<Rightarrow> string \<Rightarrow> bytes set" where
  "written w k = {v. (k, v) \<in> set w}"

definition log_ops :: "write_log cache_ops" where
  "log_ops =
     \<lparr>redis_Set = \<lambda>k v e w. (None, (k, v) # w),
      reader_Get = \<lambda>k w. (case map_of w k of None \<Rightarrow> Inl RedisNil | Some v \<Rightarrow> Inr v, w),
      redis_SRem = \<lambda>k m w. (None, w),
      group_Get = \<lambda>k w. (case map_of w k of None \<Rightarrow> Inl (ErrNotFound []) | Some v \<Rightarrow> Inr v, w),
      group_Set = \<lambda>k v e w. (None, (k, v) # w),
      redis_Close = \<lambda>w. (None, w),
      reader_Close = \<lambda>w. (None, w),
      server_Shutdown = \<lambda>w. (None, w),
      pipe_writer = \<lambda>k lock w. (\<lparr>r_get = Inl RedisNil, r_ttl = -2, r_setnx = False\<rparr>, w),
      pipe_reader = \<lambda>k w. (\<lparr>r_get = Inl RedisNil, r_ttl = -2, r_setnx = False\<rparr>, w),
      reader_GetInt64 = \<lambda>k w. (Inl RedisNil, w),
      sink_SetBytes = \<lambda>v e w. (None, w),
      time_Now = \<lambda>w. 0,
      time_Sleep = \<lambda>d w. w,
      ctx_Err = \<lambda>w. None\<rparr>"

definition log_env :: "write_log server_env" where
  "log_env =
     \<lparr>env_cfg = sim_cfg, env_ops = log_ops, env_client = Some sim_client,
      env_jwt = \<lparr>jwt_type = [], jwt_key = [], jwt_header = \<lparr>header_type = []\<rparr>\<rparr>,
      parse_unverified = \<lambda>_. Inl ''bad token'', format_float = \<lambda>_. ''0'',
      body_parser = \<lambda>_. Inr sim_query,
      json_marshal = \<lambda>m. if m = sim_meta then Inr ''M'' else Inl ''no'',
      json_unmarshal = \<lambda>b. if b = ''M'' then Inr sim_meta else Inl ''no'',
      upstream_Do = \<lambda>u c es w. ((None, sim_resp), w),
      proxy_Do = \<lambda>u c w. (None, w),
      rand_Intn = \<lambda>n w. (30, w)\<rparr>"

lemma log_laws:
  "cache_honest (env_ops log_env) written" "json_codec (json_marshal log_env) (json_unmarshal log_env)"
  "engines_apart log_env written"
proof -
  show "cache_honest (env_ops log_env) written"
    by (auto simp: cache_honest_def log_env_def log_ops_def may_write_def written_def fun_eq_iff
        dest: map_of_SomeD split: option.splits)
  show "json_codec (json_marshal log_env) (json_unmarshal log_env)" by (simp add: json_codec_def log_env_def)
  show "engines_apart log_env written" by (simp add: engines_apart_def log_env_def sim_resp_def)
qed

lemma log_key:
  "CalculateCacheKey (env_jwt log_env) (parse_unverified log_env) (format_float log_env) (ctx_headers sim_ctx) sim_query =
     Ok (sim_family, sim_key)"
  by (simp add: CalculateCacheKey_eq header_values_def sim_ctx_def sim_query_def family_text_def sim_family_def
      sim_key_def print_map_def)

definition log_saved :: write_log where
  "log_saved = replicate 2 (CreateRedisKey sim_family sim_key, cache_entry ''{}'' ''M'')"

lemma log_ttl: "IsCachedQueryGraphQLRequest (cfg_max_ttl (env_cfg log_env)) sim_query = 60"
  by (simp add: log_env_def sim_cfg_def sim_query_def cached_example_value)

lemma log_rw: "rw_handler log_env ro sim_ctx w = graphqlQueryHandler log_env ro sim_ctx sim_query w"
proof -
  have "ParseGraphQLRequest (body_parser log_env) (ctx_body sim_ctx) = Ok sim_query"
    by (simp add: ParseGraphQLRequest_def log_env_def sim_query_def)
  moreover have "\<not> keyword_at ''mutation'' (Query sim_query)" "\<not> keyword_at ''subscription'' (Query sim_query)"
    by (simp_all add: sim_query_def keyword_at_def is_space_def rx_space_def fold_rune_def next_rune_def DecodeRune_def)
  ultimately show ?thesis by (simp add: rw_handler_def IsMutation_keyword IsSubscription_keyword)
qed

lemma log_miss: "\<exists>es. rw_handler log_env Running sim_ctx [] = (Ok (), es, log_saved)"
proof -
  have l: "cache_lookup log_env sim_ctx sim_query 60 [] = (Ok ((sim_family, sim_key), None), [])"
    using log_key by (simp add: cache_lookup_def RedisCacheClient_Get_def log_env_def sim_client_def log_ops_def)
  have "0 < sim_key" using sim_key_nonzero by (simp add: sim_key_def word_gt_0)
  then have "\<exists>es. forward_query log_env Running sim_ctx 60 sim_family sim_key [] = (Ok (), es, log_saved)"
    by (simp add: forward_query_def choose_upstream_def startup_Err_def Let_def processProxyResponse_def
        ReadResponseBodyAndSaveToCache_def RedisCacheClient_Set_def as_result_def log_env_def sim_cfg_def sim_client_def
        log_ops_def sim_resp_def sim_meta_def cache_meta_def log_saved_def numeral_2_eq_2 Second_def int64_id)
  then show ?thesis by (simp add: log_rw graphqlQueryHandler_def log_ttl l)
qed

lemma log_hit:
  "\<exists>es. rw_handler log_env Running sim_ctx log_saved = (Ok (), es, log_saved) \<and> sent_to es = []"
proof -
  have l: "cache_lookup log_env sim_ctx sim_query 60 log_saved =
      (Ok ((sim_family, sim_key), Some (cache_entry ''{}'' ''M'')), log_saved)"
    using log_key
    by (simp add: cache_lookup_def RedisCacheClient_Get_def log_env_def sim_client_def log_ops_def log_saved_def
        numeral_2_eq_2 cache_entry_def PutUint64_def)
  have "decode_entry (json_unmarshal log_env) (cache_entry ''{}'' ''M'') =
      Some (''{}'', ContentType sim_meta, ContentEncoding sim_meta)"
    by (rule decode_saved) (simp_all add: log_env_def)
  moreover have "int (length (cache_entry ''{}'' ''M'')) < 2 ^ 63" by (simp add: cache_entry_def PutUint64_def)
  ultimately have "\<exists>es. SendCachedResponseBody (json_unmarshal log_env) now tp (cache_entry ''{}'' ''M'') sim_family sim_key =
      (Ok (), es) \<and> sent_to es = []" for now tp
    using decode_sent [of "json_unmarshal log_env" "cache_entry ''{}'' ''M''" "''{}''"]
      sent_to_cached [of "json_unmarshal log_env" now tp "cache_entry ''{}'' ''M''" sim_family sim_key]
    by (metis snd_conv)
  then obtain es where "SendCachedResponseBody (json_unmarshal log_env) (time_Now (env_ops log_env) log_saved div Second)
      (ctx_traceparent sim_ctx) (cache_entry ''{}'' ''M'') sim_family sim_key = (Ok (), es)" "sent_to es = []" by blast
  then show ?thesis by (simp add: log_rw graphqlQueryHandler_def log_ttl l)
qed

theorem memo_refinement_witness:
  "\<exists>served es. shows_served served (Ok ()) es \<and>
     memo_step (CreateRedisKey sim_family sim_key) (remembered log_env written []) served (remembered log_env written log_saved)"
proof -
  obtain es where "graphqlQueryHandler log_env Running sim_ctx sim_query [] = (Ok (), es, log_saved)"
    using log_miss by (auto simp: log_rw)
  moreover have "sound_cache log_env written []" by (simp add: sound_cache_def written_def)
  ultimately show ?thesis using memo_refinement [OF log_laws _ log_key] by blast
qed

theorem saved_answers_witness:
  "\<exists>client f k (resp :: http_response) meta w1. RedisCacheClient_Set log_ops client (CreateRedisKey f k)
     (cache_entry (resp_body resp) meta) 60 w1 = (None, log_saved) \<and> has_groupcache client"
proof -
  obtain es where m: "graphqlQueryHandler log_env Running sim_ctx sim_query [] = (Ok (), es, log_saved)"
    using log_miss by (auto simp: log_rw)
  have ops: "env_ops log_env = log_ops" "env_client log_env = Some sim_client" "has_groupcache sim_client"
    by (simp_all add: log_env_def sim_client_def)
  have new: "written log_saved \<noteq> written []"
    by (auto simp: written_def log_saved_def fun_eq_iff numeral_2_eq_2)
  have "fst (RedisCacheClient_Set log_ops client rk v 60 w) = None" for client rk v w
    by (simp add: RedisCacheClient_Set_def log_ops_def Let_def)
  with saved_answers [OF log_laws(1,3) m new log_ttl [symmetric]] ops show ?thesis
    by (metis fst_conv option.inject)
qed

theorem hit_replays_saved_answer_witness:
  "\<exists>(resp :: http_response) es2. graphqlQueryHandler log_env Running sim_ctx sim_query log_saved = (Ok (), es2, log_saved) \<and>
     sent_to es2 = [] \<and> last es2 = SendBody 200 (resp_body resp) \<and> has_groupcache sim_client"
proof -
  obtain es where m: "graphqlQueryHandler log_env Running sim_ctx sim_query [] = (Ok (), es, log_saved)"
    using log_miss by (auto simp: log_rw)
  have cl: "env_client log_env = Some sim_client" "has_groupcache sim_client" by (simp_all add: log_env_def sim_client_def)
  have nz: "IsCachedQueryGraphQLRequest (cfg_max_ttl (env_cfg log_env)) sim_query \<noteq> 0" by (simp add: log_ttl)
  have got: "RedisCacheClient_Get (env_ops log_env) sim_client (CreateRedisKey sim_family sim_key) log_saved =
      (Inr (cache_entry ''{}'' ''M''), log_saved)"
    by (simp add: RedisCacheClient_Get_def sim_client_def log_env_def log_ops_def log_saved_def numeral_2_eq_2)
  have "written [] (CreateRedisKey sim_family sim_key) = {}" by (simp add: written_def)
  from hit_replays_saved_answer [OF log_laws cl(1) m log_key log_key nz this refl got, of Running] cl(2) show ?thesis by blast
qed

end
