(* ===== verification/Transitions.thy ===== *)
theory Transitions
  imports Main
begin

text \<open>
  Step relations, shared by the concurrent parts: the states reachable from the start states of a
  program whose goroutines and surroundings take single steps in any order, and the interface of an
  invariant, a fact that holds at the start and survives every step.
\<close>

inductive reachable :: "('s \<Rightarrow> bool) \<Rightarrow> ('s \<Rightarrow> 's \<Rightarrow> bool) \<Rightarrow> 's \<Rightarrow> bool" for start step where
  at_start: "start s \<Longrightarrow> reachable start step s"
| after_step: "reachable start step s \<Longrightarrow> step s s' \<Longrightarrow> reachable start step s'"

text \<open>Any number of steps from a given state.\<close>

abbreviation steps :: "('s \<Rightarrow> 's \<Rightarrow> bool) \<Rightarrow> 's \<Rightarrow> 's \<Rightarrow> bool" where
  "steps step s \<equiv> reachable ((=) s) step"

lemma steps_refl: "steps step s s"
  by (rule at_start) simp

lemma reachable_steps: "reachable start step s \<Longrightarrow> steps step s s' \<Longrightarrow> reachable start step s'"
  by (rotate_tac, induction rule: reachable.induct) (auto intro: after_step)

locale step_invariant =
  fixes step :: "'s \<Rightarrow> 's \<Rightarrow> bool" and inv :: "'s \<Rightarrow> bool"
  assumes inv_step: "inv s \<Longrightarrow> step s s' \<Longrightarrow> inv s'"
begin

lemma inv_steps: "steps step s s' \<Longrightarrow> inv s \<Longrightarrow> inv s'"
  by (induction rule: reachable.induct) (auto intro: inv_step)

end

locale invariant = step_invariant +
  fixes start :: "'s \<Rightarrow> bool"
  assumes inv_start: "start s \<Longrightarrow> inv s"
begin

lemma inv_reachable: "reachable start step s \<Longrightarrow> inv s"
  by (induction rule: reachable.induct) (auto intro: inv_start inv_step)

end

text \<open>A program that runs down: under an invariant every step decreases a rank, and a state in which no step is
  possible is a goal. Then a goal is reached, whichever steps are taken, and there is no infinite run.\<close>

locale running_down = step_invariant +
  fixes rank :: "'s \<Rightarrow> nat" and goal :: "'s \<Rightarrow> bool"
  assumes rank_decreases: "inv s \<Longrightarrow> step s s' \<Longrightarrow> rank s' < rank s"
    and stuck_goal: "inv s \<Longrightarrow> \<nexists>s'. step s s' \<Longrightarrow> goal s"
begin

lemma goal_reached: "inv s \<Longrightarrow> \<exists>t. steps step s t \<and> inv t \<and> goal t"
proof (induction s rule: measure_induct_rule [of rank])
  case (less s)
  show ?case
  proof (cases "\<exists>s'. step s s'")
    case True
    then obtain s' where s': "step s s'" ..
    with less obtain t where "steps step s' t" "inv t" "goal t" using inv_step rank_decreases by blast
    moreover have "steps step s s'" using s' after_step steps_refl by metis
    ultimately show ?thesis using reachable_steps by metis
  next
    case False
    then show ?thesis using less.prems stuck_goal steps_refl by metis
  qed
qed

lemma goal_at_end: "inv s \<Longrightarrow> steps step s t \<Longrightarrow> \<nexists>u. step t u \<Longrightarrow> goal t"
  using inv_steps stuck_goal by blast

end

end
