(* ===== verification/Concurrent_Queries.thy ===== *)
theory Concurrent_Queries
  imports Cache_Runs Transitions
begin

text \<open>
  Requests on the two GraphQL endpoints that run at the same time. A query of
  \<open>src/fiber_graphql_handler.go\<close> takes up to three steps: it looks into the cache, it asks an engine, it
  deals with the answer; between them any other requests take theirs, time passes and entries expire. Where an
  answer from the cache comes from is an invariant of these steps.
\<close>

subsection \<open>Requests under way\<close>

text \<open>A query that has missed the cache, with its time to live and its keys; and one an engine has answered,
  with the effects so far.\<close>

datatype flight =
    Asking fiber_ctx int u64 u64
  | Saving fiber_ctx int u64 u64 upstream "string option" http_response "effect list"

text \<open>The requests that have been answered, the latest first.\<close>

type_synonym history = "(fiber_ctx \<times> (http_error, unit) result \<times> effect list) list"

record 'w service =
  sv_world :: 'w
  sv_flights :: "flight list"
  sv_history :: history

text \<open>A request that both endpoints take for a query.\<close>

definition is_query :: "'w server_env \<Rightarrow> fiber_ctx \<Rightarrow> GraphQLRequest \<Rightarrow> bool" where
  "is_query env c req \<longleftrightarrow> ParseGraphQLRequest (body_parser env) (ctx_body c) = Ok req \<and>
     \<not> IsMutationGraphQLRequest req \<and> \<not> IsSubscriptionGraphQLRequest req"

abbreviation query_ttl :: "'w server_env \<Rightarrow> GraphQLRequest \<Rightarrow> int" where
  "query_ttl env req \<equiv> IsCachedQueryGraphQLRequest (cfg_max_ttl (env_cfg env)) req"

inductive service_step :: "'w server_env \<Rightarrow> ('w \<Rightarrow> string \<Rightarrow> bytes set) \<Rightarrow> 'w service \<Rightarrow> 'w service \<Rightarrow> bool"
  for env wrote where
  finds: "is_query env c req \<Longrightarrow>
     cache_lookup env c req (query_ttl env req) (sv_world s) = (Ok ((f, k), Some d), w') \<Longrightarrow>
     SendCachedResponseBody (json_unmarshal env) (time_Now (env_ops env) w' div Second) (ctx_traceparent c) d f k = (r, es) \<Longrightarrow>
     service_step env wrote s (s\<lparr>sv_world := w', sv_history := (c, r, es) # sv_history s\<rparr>)"
| misses: "is_query env c req \<Longrightarrow>
     cache_lookup env c req (query_ttl env req) (sv_world s) = (Ok ((f, k), None), w') \<Longrightarrow>
     service_step env wrote s (s\<lparr>sv_world := w', sv_flights := sv_flights s @ [Asking c (query_ttl env req) f k]\<rparr>)"
| asks: "Asking c ttl f k \<in> set (sv_flights s) \<Longrightarrow> choose_upstream env ro (sv_world s) = (u, w1) \<Longrightarrow>
     es = prepareProxyRequest (upstream_host u) ''/v1/graphql'' (ctx_ip c) @ [InjectTraceContext] \<Longrightarrow>
     upstream_Do env u c es w1 = ((err, resp), w2) \<Longrightarrow>
     service_step env wrote s (s\<lparr>sv_world := w2,
       sv_flights := remove1 (Asking c ttl f k) (sv_flights s) @ [Saving c ttl f k u err resp es]\<rparr>)"
| saves: "Saving c ttl f k u err resp es \<in> set (sv_flights s) \<Longrightarrow>
     processProxyResponse env resp (env_client env) ttl f k (sv_world s) = (fs, w') \<Longrightarrow>
     service_step env wrote s (s\<lparr>sv_world := w', sv_flights := remove1 (Saving c ttl f k u err resp es) (sv_flights s),
       sv_history := (c, as_result err, es @ [UpstreamDo u resp] @ fs) # sv_history s\<rparr>)"
| mutates: "ParseGraphQLRequest (body_parser env) (ctx_body c) = Ok req \<Longrightarrow> IsMutationGraphQLRequest req \<Longrightarrow>
     \<not> IsSubscriptionGraphQLRequest req \<Longrightarrow> graphqlMutationHandler env c req (sv_world s) = (r, es, w') \<Longrightarrow>
     service_step env wrote s (s\<lparr>sv_world := w', sv_history := (c, r, es) # sv_history s\<rparr>)"
| refuses: "h = rw_handler \<or> h = ro_handler \<Longrightarrow> h env ro c (sv_world s) = (r, [], w') \<Longrightarrow> r \<noteq> Ok () \<Longrightarrow> w' = sv_world s \<Longrightarrow>
     service_step env wrote s (s\<lparr>sv_history := (c, r, []) # sv_history s\<rparr>)"
| elsewhere: "wrote w' = wrote (sv_world s) \<Longrightarrow> service_step env wrote s (s\<lparr>sv_world := w'\<rparr>)"

text \<open>The service starts with nothing written to the cache.\<close>

definition service_start :: "('w \<Rightarrow> string \<Rightarrow> bytes set) \<Rightarrow> 'w service \<Rightarrow> bool" where
  "service_start wrote s \<longleftrightarrow> wrote (sv_world s) = (\<lambda>_. {}) \<and> sv_flights s = [] \<and> sv_history s = []"

text \<open>A handler that runs without anything in between takes these steps: a call of the query handler is one
  schedule of them.\<close>

lemma query_is_schedule:
  assumes q: "is_query env c req" and run: "graphqlQueryHandler env ro c req (sv_world s) = (r, es, w')"
  shows "\<exists>s'. steps (service_step env wrote) s s' \<and> sv_world s' = w' \<and> sv_history s' = (c, r, es) # sv_history s"
proof -
  obtain x w0 where l: "cache_lookup env c req (query_ttl env req) (sv_world s) = (x, w0)" by fastforce
  have failed: "w0 = sv_world s" if "\<nexists>y. x = Ok y"
    using l that by (auto simp: cache_lookup_def split: option.splits if_splits result.splits prod.splits sum.splits)
  from run consider (hit) f k d where "x = Ok ((f, k), Some d)" "w' = w0"
      "SendCachedResponseBody (json_unmarshal env) (time_Now (env_ops env) w0 div Second) (ctx_traceparent c) d f k = (r, es)"
    | (miss) f k where "x = Ok ((f, k), None)" "forward_query env ro c (query_ttl env req) f k w0 = (r, es, w')"
    | (fail) "\<nexists>y. x = Ok y" "r \<noteq> Ok ()" "es = []" "w' = w0"
    by (auto simp: graphqlQueryHandler_def l split: result.splits option.splits prod.splits)
  then show ?thesis
  proof cases
    case hit
    let ?s1 = "s\<lparr>sv_world := w0, sv_history := (c, r, es) # sv_history s\<rparr>"
    have "service_step env wrote s ?s1" using l hit by (intro finds [OF q]) simp_all
    then have "steps (service_step env wrote) s ?s1" by (blast intro: after_step steps_refl)
    then show ?thesis using hit(2) by (intro exI [of _ ?s1]) simp
  next
    case miss
    obtain u v where u: "choose_upstream env ro w0 = (u, v)" by fastforce
    let ?es = "prepareProxyRequest (upstream_host u) ''/v1/graphql'' (ctx_ip c) @ [InjectTraceContext]"
    obtain err resp w2 where d: "upstream_Do env u c ?es v = ((err, resp), w2)" by (metis prod_cases3 prod.collapse)
    obtain fs w3 where p: "processProxyResponse env resp (env_client env) (query_ttl env req) f k w2 = (fs, w3)" by fastforce
    have es: "es = ?es @ [UpstreamDo u resp] @ fs" "w3 = w'" "as_result err = r"
      using miss(2) d p by (simp_all add: forward_query_def u)
    let ?a = "Asking c (query_ttl env req) f k" and ?b = "Saving c (query_ttl env req) f k u err resp ?es"
    let ?s1 = "s\<lparr>sv_world := w0, sv_flights := sv_flights s @ [?a]\<rparr>"
    let ?s2 = "?s1\<lparr>sv_world := w2, sv_flights := remove1 ?a (sv_flights ?s1) @ [?b]\<rparr>"
    let ?s3 = "?s2\<lparr>sv_world := w3, sv_flights := remove1 ?b (sv_flights ?s2),
      sv_history := (c, as_result err, ?es @ [UpstreamDo u resp] @ fs) # sv_history ?s2\<rparr>"
    have "service_step env wrote s ?s1" using l miss(1) by (intro misses [OF q]) simp
    moreover have "service_step env wrote ?s1 ?s2" using u d by (intro asks [where ro = ro and u = u]) simp_all
    moreover have "service_step env wrote ?s2 ?s3" using p by (intro saves) simp_all
    ultimately have "steps (service_step env wrote) s ?s3" by (blast intro: after_step steps_refl)
    then show ?thesis using es by (intro exI [of _ ?s3]) simp
  next
    case fail
    let ?s1 = "s\<lparr>sv_history := (c, r, []) # sv_history s\<rparr>"
    have w: "w' = sv_world s" using fail failed by simp
    have "rw_handler env ro c (sv_world s) = (r, [], w')" using q run fail(3) by (simp add: rw_handler_def is_query_def)
    then have "service_step env wrote s ?s1" using fail(2) w by (intro refuses [of rw_handler]) simp_all
    then have "steps (service_step env wrote) s ?s1" by (blast intro: after_step steps_refl)
    then show ?thesis using w fail(3) by (intro exI [of _ ?s1]) simp
  qed
qed

subsection \<open>Where the answers come from\<close>

definition request_key :: "'w server_env \<Rightarrow> fiber_ctx \<Rightarrow> string option" where
  "request_key env c =
     (case ParseGraphQLRequest (body_parser env) (ctx_body c) of
        Ok req \<Rightarrow>
          (case CalculateCacheKey (env_jwt env) (parse_unverified env) (format_float env) (ctx_headers c) req of
             Ok (f, k) \<Rightarrow> Some (CreateRedisKey f k)
           | _ \<Rightarrow> None)
      | _ \<Rightarrow> None)"

text \<open>The call of an engine for a request of the history with this key left the answer in the response, with
  status 200; the request was answered with one of \<open>rs\<close>. A request that asked an engine is answered with \<open>Ok\<close>
  exactly when the call succeeded: then an engine gave the answer. A call that failed can leave one too.\<close>

definition response_before :: "'w server_env \<Rightarrow> (http_error, unit) result set \<Rightarrow> history \<Rightarrow> string \<Rightarrow> answer \<Rightarrow> bool" where
  "response_before env rs hist rk a \<longleftrightarrow>
     (\<exists>c r es u resp. (c, r, es) \<in> set hist \<and> r \<in> rs \<and> request_key env c = Some rk \<and>
        UpstreamDo u resp \<in> set es \<and> resp_status resp = 200 \<and> answer_of resp = a)"

abbreviation given_before :: "'w server_env \<Rightarrow> history \<Rightarrow> string \<Rightarrow> answer \<Rightarrow> bool" where
  "given_before env \<equiv> response_before env {Ok ()}"

abbreviation left_before :: "'w server_env \<Rightarrow> history \<Rightarrow> string \<Rightarrow> answer \<Rightarrow> bool" where
  "left_before env \<equiv> response_before env (- {Ok ()})"

lemma response_before_Cons: "response_before env rs hist rk a \<Longrightarrow> response_before env rs (x # hist) rk a"
  unfolding response_before_def list.set(2) by blast

lemma response_before_cases:
  assumes "response_before env UNIV hist rk a"
  shows "given_before env hist rk a \<or> left_before env hist rk a"
  using assms unfolding response_before_def by blast

text \<open>A request that was answered well without asking a server has been given such an answer.\<close>

definition replay_of :: "'w server_env \<Rightarrow> fiber_ctx \<Rightarrow> effect list \<Rightarrow> history \<Rightarrow> bool" where
  "replay_of env c es earlier \<longleftrightarrow>
     (\<exists>rk resp. request_key env c = Some rk \<and> response_before env UNIV earlier rk (answer_of resp) \<and>
        last es = SendBody 200 (resp_body resp) \<and> CtxSet ''Content-Type'' (resp_content_type resp) \<in> set es \<and>
        (resp_content_encoding resp \<noteq> [] \<longrightarrow> CtxSet ''Content-Encoding'' (resp_content_encoding resp) \<in> set es))"

fun honest_history :: "'w server_env \<Rightarrow> history \<Rightarrow> bool" where
  "honest_history env [] \<longleftrightarrow> True"
| "honest_history env ((c, r, es) # earlier) \<longleftrightarrow>
     (r = Ok () \<and> sent_to es = [] \<longrightarrow> replay_of env c es earlier) \<and> honest_history env earlier"

definition honest_flight :: "'w server_env \<Rightarrow> flight \<Rightarrow> bool" where
  "honest_flight env fl \<longleftrightarrow>
     (case fl of
        Asking c ttl f k \<Rightarrow> k \<noteq> 0 \<longrightarrow> request_key env c = Some (CreateRedisKey f k)
      | Saving c ttl f k u err resp es \<Rightarrow>
          (k \<noteq> 0 \<longrightarrow> request_key env c = Some (CreateRedisKey f k)) \<and> int (length (resp_body resp)) < 2 ^ 62)"

definition memory_given :: "'w server_env \<Rightarrow> ('w \<Rightarrow> string \<Rightarrow> bytes set) \<Rightarrow> 'w \<Rightarrow> history \<Rightarrow> bool" where
  "memory_given env wrote w hist \<longleftrightarrow> sound_cache env wrote w \<and>
     (\<forall>rk. \<forall>a \<in> remembered env wrote w rk. response_before env UNIV hist rk a)"

definition provenance :: "'w server_env \<Rightarrow> ('w \<Rightarrow> string \<Rightarrow> bytes set) \<Rightarrow> 'w service \<Rightarrow> bool" where
  "provenance env wrote s \<longleftrightarrow> memory_given env wrote (sv_world s) (sv_history s) \<and>
     list_all (honest_flight env) (sv_flights s) \<and> honest_history env (sv_history s)"

definition service_laws :: "'w server_env \<Rightarrow> ('w \<Rightarrow> string \<Rightarrow> bytes set) \<Rightarrow> bool" where
  "service_laws env wrote \<longleftrightarrow> cache_honest (env_ops env) wrote \<and>
     json_codec (json_marshal env) (json_unmarshal env) \<and> engines_apart env wrote"

lemma lookup_keys:
  assumes "is_query env c req" and "cache_honest (env_ops env) wrote" and "cache_lookup env c req ttl w = (Ok ((f, k), found), w')"
  shows "wrote w' = wrote w" and "k \<noteq> 0 \<longrightarrow> request_key env c = Some (CreateRedisKey f k)"
    and "found = Some d \<Longrightarrow> request_key env c = Some (CreateRedisKey f k) \<and> d \<in> wrote w (CreateRedisKey f k)"
proof -
  have r: "CalculateCacheKey (env_jwt env) (parse_unverified env) (format_float env) (ctx_headers c) req = Ok (f, k) \<Longrightarrow>
      request_key env c = Some (CreateRedisKey f k)"
    using assms(1) by (simp add: request_key_def is_query_def)
  have "wrote w' = wrote w \<and> (f = 0 \<and> k = 0 \<and> found = None \<or>
      CalculateCacheKey (env_jwt env) (parse_unverified env) (format_float env) (ctx_headers c) req = Ok (f, k) \<and>
      (\<forall>d. found = Some d \<longrightarrow> d \<in> wrote w (CreateRedisKey f k)))"
    using assms(3) Get_honest [OF assms(2)]
    by (fastforce simp: cache_lookup_def split: option.splits if_splits result.splits sum.splits prod.splits)
  then show "wrote w' = wrote w" "k \<noteq> 0 \<longrightarrow> request_key env c = Some (CreateRedisKey f k)"
    "found = Some d \<Longrightarrow> request_key env c = Some (CreateRedisKey f k) \<and> d \<in> wrote w (CreateRedisKey f k)"
    using r by auto
qed

lemma memory_given_same:
  "memory_given env wrote w hist \<Longrightarrow> wrote w' = wrote w \<Longrightarrow> memory_given env wrote w' hist"
  by (simp add: memory_given_def sound_cache_def remembered_def)

lemma memory_given_Cons: "memory_given env wrote w hist \<Longrightarrow> memory_given env wrote w (x # hist)"
  by (auto simp: memory_given_def response_before_Cons)

text \<open>A replay, from an entry that was written.\<close>

lemma found_is_replay:
  assumes "memory_given env wrote w hist" and "d \<in> wrote w rk" and "request_key env c = Some rk"
    and "SendCachedResponseBody (json_unmarshal env) now (ctx_traceparent c) d f k = (r, es)"
  shows "replay_of env c es hist"
proof -
  from assms(1,2) obtain body ctype cenc where e: "decode_entry (json_unmarshal env) d = Some (body, ctype, cenc)"
    and len: "int (length d) < 2 ^ 63" by (fastforce simp: memory_given_def sound_cache_def)
  have "(body, ctype, cenc) \<in> remembered env wrote w rk" using e assms(2) by (auto simp: remembered_def)
  then have given: "response_before env UNIV hist rk (body, ctype, cenc)" using assms(1) by (simp add: memory_given_def)
  then obtain resp where "answer_of resp = (body, ctype, cenc)" unfolding response_before_def by blast
  then have resp: "resp_body resp = body" "resp_content_type resp = ctype" "resp_content_encoding resp = cenc"
    by (simp_all add: answer_of_def)
  obtain m where m: "es = cached_reply now (ctx_traceparent c) m body f k" "ContentType m = ctype" "ContentEncoding m = cenc"
    using decode_sent [OF e len, of now "ctx_traceparent c" f k] assms(4) by auto
  show ?thesis
    unfolding replay_of_def
    by (intro exI [of _ rk] exI [of _ resp]) (use given assms(3) resp m in \<open>auto simp: answer_of_def cached_reply_def\<close>)
qed

text \<open>Dealing with the answer of an engine.\<close>

lemma save_given:
  assumes laws: "service_laws env wrote" and mem: "memory_given env wrote w hist"
    and fl: "honest_flight env (Saving c ttl f k u err resp es)"
    and p: "processProxyResponse env resp (env_client env) ttl f k w = (fs, w')"
  shows "memory_given env wrote w' ((c, r, es @ [UpstreamDo u resp] @ fs) # hist)"
proof -
  let ?x = "(c, r, es @ [UpstreamDo u resp] @ fs)"
  have h: "cache_honest (env_ops env) wrote" "json_codec (json_marshal env) (json_unmarshal env)" "engines_apart env wrote"
    using laws by (simp_all add: service_laws_def)
  have sound: "sound_cache env wrote w" using mem by (simp add: memory_given_def)
  from process_honest [OF h(1) p] show ?thesis
  proof (elim disjE conjE exE)
    assume "wrote w' = wrote w"
    then show ?thesis by (rule memory_given_Cons [OF memory_given_same [OF mem]])
  next
    fix t meta
    assume st: "resp_status resp = 200" and k: "k \<noteq> 0" and meta: "json_marshal env (cache_meta t resp) = Inr meta"
      and w: "may_write wrote (CreateRedisKey f k) (cache_entry (resp_body resp) meta) w w'"
    have key: "request_key env c = Some (CreateRedisKey f k)" and len: "int (length (resp_body resp)) < 2 ^ 62"
      using fl k by (simp_all add: honest_flight_def)
    have new: "response_before env UNIV (?x # hist) (CreateRedisKey f k) (answer_of resp)"
      unfolding response_before_def using key st
      by (intro exI [of _ c] exI [of _ r] exI [of _ "es @ [UpstreamDo u resp] @ fs"] exI [of _ u] exI [of _ resp]) simp
    from write_remembers [OF h(2,3) meta len w sound] mem new show ?thesis
      by (auto simp: memory_given_def response_before_Cons split: if_splits)
  qed
qed

lemma provenance_step:
  assumes laws: "service_laws env wrote" and inv: "provenance env wrote s" and st: "service_step env wrote s s'"
  shows "provenance env wrote s'"
proof -
  have h: "cache_honest (env_ops env) wrote" "engines_apart env wrote" using laws by (simp_all add: service_laws_def)
  have mem: "memory_given env wrote (sv_world s) (sv_history s)" and fl: "\<forall>x \<in> set (sv_flights s). honest_flight env x"
    and hist: "honest_history env (sv_history s)"
    using inv by (simp_all add: provenance_def list_all_iff)
  from st show ?thesis
  proof (cases rule: service_step.cases)
    case (finds c req f k d w' r es)
    note key = lookup_keys [OF finds(2) h(1) finds(3)]
    have "replay_of env c es (sv_history s)"
      using found_is_replay [OF mem _ _ finds(4), of "CreateRedisKey f k"] key(3) [OF refl] by simp
    then show ?thesis
      using inv finds(1) memory_given_Cons [OF memory_given_same [OF mem key(1)]] by (simp add: provenance_def)
  next
    case (misses c req f k w')
    note key = lookup_keys [OF misses(2) h(1) misses(3)]
    show ?thesis
      using inv misses(1) memory_given_same [OF mem key(1)] key(2) by (simp add: provenance_def honest_flight_def)
  next
    case (asks c ttl f k ro u w1 es err resp w2)
    have "wrote w1 = wrote (sv_world s)"
      using asks(3) h(2) by (auto simp: choose_upstream_def engines_apart_def Let_def split: if_splits prod.splits)
    moreover have "wrote w2 = wrote w1" and "int (length (resp_body resp)) < 2 ^ 62"
      using h(2) asks(5) unfolding engines_apart_def by blast+
    moreover have "honest_flight env (Asking c ttl f k)" using fl asks(2) by blast
    moreover have "\<forall>x \<in> set (remove1 (Asking c ttl f k) (sv_flights s)). honest_flight env x"
      using fl set_remove1_subset by fastforce
    ultimately show ?thesis
      using asks(1) hist memory_given_same [OF mem, of w2] by (simp add: provenance_def honest_flight_def list_all_iff)
  next
    case (saves c ttl f k u err resp es fs w')
    have "honest_flight env (Saving c ttl f k u err resp es)" using fl saves(2) by blast
    from save_given [OF laws mem this saves(3), of "as_result err"] saves(1) hist
    show ?thesis using fl set_remove1_subset [of _ "sv_flights s"] by (fastforce simp: provenance_def list_all_iff)
  next
    case (mutates c req r es w')
    have "sent_to es = [PrimaryEngine]" using mutates(5) mutation_sends [of env c req "sv_world s"] by simp
    moreover have "wrote w' = wrote (sv_world s)"
      using mutates(5) h(2) unfolding graphqlMutationHandler_def engines_apart_def
      by (auto simp: process_uncached Let_def split: prod.splits)
    ultimately show ?thesis
      using inv mutates(1) memory_given_Cons [OF memory_given_same [OF mem]] by (simp add: provenance_def)
  next
    case (refuses h ro c r w')
    then show ?thesis using inv memory_given_Cons [OF mem] by (simp add: provenance_def)
  next
    case (elsewhere w')
    then show ?thesis using inv memory_given_same [OF mem] by (simp add: provenance_def)
  qed
qed

interpretation prov: invariant "service_step env wrote" "\<lambda>s. service_laws env wrote \<longrightarrow> provenance env wrote s" "service_start wrote"
  for env wrote
  by unfold_locales
    (blast intro: provenance_step, simp add: provenance_def memory_given_def service_start_def sound_cache_def remembered_def)

lemma honest_history_entry: "honest_history env (later @ (c, Ok (), es) # earlier) \<Longrightarrow> sent_to es = [] \<Longrightarrow> replay_of env c es earlier"
  by (induction later) auto

text \<open>C1. Where every answer from the cache comes from: however requests interleave, and starting with an empty
  cache, when a request was answered without asking a server, a request with the same Redis key had asked an
  engine before, and the call left a response with status 200 and exactly this body, content type and encoding.
  Either the call succeeded and an engine gave the answer; or it failed, and what it left in the response
  object was taken for one (C38).\<close>

theorem replay_provenance:
  assumes "service_laws env wrote" and "reachable (service_start wrote) (service_step env wrote) s"
    and "sv_history s = later @ (c, Ok (), es) # earlier" and "sent_to es = []"
  shows "\<exists>rk resp. request_key env c = Some rk \<and>
    (given_before env earlier rk (answer_of resp) \<or> left_before env earlier rk (answer_of resp)) \<and>
    last es = SendBody 200 (resp_body resp) \<and> CtxSet ''Content-Type'' (resp_content_type resp) \<in> set es \<and>
    (resp_content_encoding resp \<noteq> [] \<longrightarrow> CtxSet ''Content-Encoding'' (resp_content_encoding resp) \<in> set es)"
proof -
  have "provenance env wrote s" using prov.inv_reachable [OF assms(2)] assms(1) by blast
  then have "honest_history env (later @ (c, Ok (), es) # earlier)" by (simp add: provenance_def assms(3))
  from honest_history_entry [OF this assms(4)] show ?thesis using response_before_cases unfolding replay_of_def by blast
qed

text \<open>The query of \<open>Cache_Runs\<close>, twice.\<close>

lemma log_is_query: "is_query log_env sim_ctx sim_query"
proof -
  have "ParseGraphQLRequest (body_parser log_env) (ctx_body sim_ctx) = Ok sim_query"
    by (simp add: ParseGraphQLRequest_def log_env_def sim_query_def)
  moreover have "\<not> keyword_at ''mutation'' (Query sim_query)" "\<not> keyword_at ''subscription'' (Query sim_query)"
    by (simp_all add: sim_query_def keyword_at_def is_space_def rx_space_def fold_rune_def next_rune_def DecodeRune_def)
  ultimately show ?thesis by (simp add: is_query_def IsMutation_keyword IsSubscription_keyword)
qed

theorem replay_provenance_witness:
  "\<exists>s es1 es2 rk resp. sv_history (s :: write_log service) = [(sim_ctx, Ok (), es2), (sim_ctx, Ok (), es1)] \<and>
     sent_to es2 = [] \<and> given_before log_env [(sim_ctx, Ok (), es1)] rk (answer_of resp)"
proof -
  let ?s0 = "\<lparr>sv_world = [], sv_flights = [], sv_history = []\<rparr> :: write_log service"
  let ?step = "service_step log_env written"
  obtain es1 where "graphqlQueryHandler log_env Running sim_ctx sim_query [] = (Ok (), es1, log_saved)"
    using log_miss by (auto simp: log_rw)
  then obtain s1 where s1: "steps ?step ?s0 s1" "sv_world s1 = log_saved" "sv_history s1 = [(sim_ctx, Ok (), es1)]"
    using query_is_schedule [OF log_is_query, of Running ?s0] by force
  obtain es2 where hit: "graphqlQueryHandler log_env Running sim_ctx sim_query log_saved = (Ok (), es2, log_saved)"
    "sent_to es2 = []" using log_hit by (auto simp: log_rw)
  then obtain s2 where s2: "steps ?step s1 s2" "sv_history s2 = [(sim_ctx, Ok (), es2), (sim_ctx, Ok (), es1)]"
    using query_is_schedule [OF log_is_query, of Running s1] s1(2,3) by force
  have "service_start written ?s0" by (simp add: service_start_def written_def fun_eq_iff)
  then have r: "reachable (service_start written) ?step s2"
    using s1(1) s2(1) by (blast intro: reachable_steps at_start)
  have "service_laws log_env written" using log_laws by (simp add: service_laws_def)
  from replay_provenance [OF this r, of "[]" sim_ctx es2] s2(2) hit(2) obtain rk resp where
    "given_before log_env [(sim_ctx, Ok (), es1)] rk (answer_of resp) \<or> left_before log_env [(sim_ctx, Ok (), es1)] rk (answer_of resp)"
    by auto
  moreover have "\<not> left_before log_env [(sim_ctx, Ok (), es1)] rk (answer_of resp)" by (simp add: response_before_def)
  ultimately show ?thesis using s2(2) hit(2) by blast
qed

end
