(* ===== verification/Herd.thy ===== *)
theory Herd
  imports Cache_Properties Envelope
begin

text \<open>
  The thundering herd, \<open>GetterFunc\<close> of \<open>src/cache_service.go\<close>: any number of processes ask for the same
  missing key, and the lock in Redis lets one of them go to the engine while the others wait. The run of
  the first reads of all processes is a step relation; whatever happens between them may take time but
  leaves the lock alone.
\<close>

text \<open>Documented behaviour of \<open>SETNX\<close> with an expiration, \<open>lock\<close> being the instant until which the lock key
  lives: it answers true only if the key is not there any more, and the key then lives for at least the
  time given; otherwise the key keeps its life. The clock does not go back.\<close>

definition setnx_laws :: "'w cache_ops \<Rightarrow> ('w \<Rightarrow> int option) \<Rightarrow> string \<Rightarrow> bool" where
  "setnx_laws ops lock k \<longleftrightarrow>
     (\<forall>e d w reply w'. pipe_writer ops k (Some (etaKey k, e, d)) w = (reply, w') \<longrightarrow>
        time_Now ops w \<le> time_Now ops w' \<and>
        (if r_setnx reply
         then (\<forall>t. lock w = Some t \<longrightarrow> t \<le> time_Now ops w) \<and> (\<exists>t. lock w' = Some t \<and> time_Now ops w + d \<le> t)
         else lock w' = lock w))"

text \<open>\<open>herd ts w\<close>: the processes have come to the world \<open>w\<close>, and the lock was taken at the instants \<open>ts\<close>.\<close>

inductive herd :: "'w cache_ops \<Rightarrow> ('w \<Rightarrow> int option) \<Rightarrow> u64 \<Rightarrow> string \<Rightarrow> int list \<Rightarrow> 'w \<Rightarrow> bool"
  for ops lock waitETA k where
  calm: "herd ops lock waitETA k [] w"
| first_read: "herd ops lock waitETA k ts w \<Longrightarrow> getter_first_read ops waitETA k w = (reply, eta, w') \<Longrightarrow>
     herd ops lock waitETA k (if r_setnx reply then ts @ [time_Now ops w] else ts) w'"
| meanwhile: "herd ops lock waitETA k ts w \<Longrightarrow> lock w' = lock w \<Longrightarrow> time_Now ops w \<le> time_Now ops w' \<Longrightarrow>
     herd ops lock waitETA k ts w'"

definition wait_ns :: "u64 \<Rightarrow> int" where
  "wait_ns waitETA = uint waitETA * Millisecond"

lemma wait_ns:
  assumes "waitETA \<le> 3000"
  shows "int64 (sint waitETA * Millisecond) = wait_ns waitETA" and "0 \<le> wait_ns waitETA"
proof -
  have u: "uint waitETA \<le> 3000" using assms by (simp add: word_le_def)
  then have "sint waitETA = uint waitETA" by (simp add: sint_u64)
  then show "int64 (sint waitETA * Millisecond) = wait_ns waitETA"
  proof -
    have "- (2 ^ 63) \<le> (0 :: int)" by simp
    also have "0 \<le> uint waitETA * 1000000" by simp
    finally have "int64 (uint waitETA * 1000000) = uint waitETA * 1000000"
      by (rule int64_id) (use u in simp)
    then show ?thesis using \<open>sint waitETA = uint waitETA\<close> by (simp add: wait_ns_def Millisecond_def)
  qed
  show "0 \<le> wait_ns waitETA" by (simp add: wait_ns_def Millisecond_def)
qed

lemma first_read_locks:
  assumes "setnx_laws ops lock k" and "0 < waitETA" and "waitETA \<le> 3000"
    and "getter_first_read ops waitETA k w = (reply, eta, w')"
  shows "if r_setnx reply
    then (\<forall>t. lock w = Some t \<longrightarrow> t \<le> time_Now ops w) \<and> (\<exists>t. lock w' = Some t \<and> time_Now ops w + wait_ns waitETA \<le> t)
    else lock w' = lock w"
proof -
  from assms(2-4) obtain e where "pipe_writer ops k (Some (etaKey k, e, wait_ns waitETA)) w = (reply, w')"
    by (auto simp: getter_first_read_def Let_def wait_ns split: prod.splits if_splits)
  with assms(1) show ?thesis unfolding setnx_laws_def by blast
qed

text \<open>C35. However many processes miss the same key, and however their reads interleave, the lock is handed out
  at most once in every interval of the configured wait: between two of the instants at which a process
  was told to go and populate the key lies the whole wait.\<close>

theorem lock_once_per_wait:
  assumes "setnx_laws ops lock k" and "0 < waitETA" and "waitETA \<le> 3000" and "herd ops lock waitETA k ts w"
  shows "sorted_wrt (\<lambda>t t'. t + wait_ns waitETA \<le> t') ts"
proof -
  let ?d = "wait_ns waitETA"
  note pos = wait_ns(2) [OF assms(3)]
  from assms(4) have "sorted_wrt (\<lambda>t t'. t + ?d \<le> t') ts \<and> (\<forall>t \<in> set ts. \<exists>u. lock w = Some u \<and> t + ?d \<le> u)"
  proof induction
    case (first_read ts w reply eta w')
    note l = first_read_locks [OF assms(1-3) first_read.hyps(2)]
    show ?case
    proof (cases "r_setnx reply")
      case True
      then obtain u where u: "lock w' = Some u" "time_Now ops w + ?d \<le> u" using l by auto
      have before: "t + ?d \<le> time_Now ops w" if "t \<in> set ts" for t
        using first_read.IH that l True by fastforce
      moreover have "t + ?d \<le> u" if "t \<in> set ts" for t using before [OF that] u(2) pos by linarith
      ultimately show ?thesis using first_read.IH True u by (simp add: sorted_wrt_append)
    qed (use first_read.IH l in simp)
  qed auto
  then show ?thesis by simp
qed

text \<open>The world of \<open>Sim_World\<close> with locks that expire.\<close>

definition sim_lock :: "sim \<Rightarrow> int option" where
  "sim_lock s = sim_locks s (etaKey ''k'')"

definition sim_locking :: "sim cache_ops" where
  "sim_locking = sim_ops\<lparr>pipe_writer := \<lambda>k lock s.
     (case lock of
        None \<Rightarrow> (sim_reply s k False, s)
      | Some (n, e, d) \<Rightarrow>
          if (case sim_locks s n of None \<Rightarrow> True | Some t \<Rightarrow> t \<le> sim_now s)
          then (sim_reply s k True, s\<lparr>sim_locks := (sim_locks s)(n \<mapsto> sim_now s + d)\<rparr>)
          else (sim_reply s k False, s))\<rparr>"

lemma sim_setnx: "setnx_laws sim_locking sim_lock ''k''"
  by (auto simp: setnx_laws_def sim_locking_def sim_lock_def sim_ops_def sim_reply_def
      split: if_splits option.splits prod.splits)

theorem lock_once_per_wait_witness:
  "sorted_wrt (\<lambda>t t'. t + wait_ns 500 \<le> t') [0, 600000000]"
proof -
  let ?s = "sim_init\<lparr>sim_locks := [etaKey ''k'' \<mapsto> 500000000]\<rparr>"
  let ?t = "?s\<lparr>sim_now := 600000000\<rparr>"
  have d: "int64 (500 * Millisecond) = 500000000" by (simp add: Millisecond_def int64_id)
  have r: "r_setnx (sim_reply s k b) = b" for s k b by (simp add: sim_reply_def split: option.split prod.split)
  obtain e where 1: "getter_first_read sim_locking 500 ''k'' sim_init = (sim_reply sim_init ''k'' True, e, ?s)"
    by (simp add: getter_first_read_def sim_locking_def sim_ops_def sim_init_def d Let_def)
  have "herd sim_locking sim_lock 500 ''k'' [0] ?s"
    using first_read [OF calm 1, of sim_lock] by (simp add: r sim_locking_def sim_ops_def sim_init_def)
  then have waited: "herd sim_locking sim_lock 500 ''k'' [0] ?t"
    by (rule meanwhile) (simp_all add: sim_lock_def sim_locking_def sim_ops_def sim_init_def)
  obtain e s where 2: "getter_first_read sim_locking 500 ''k'' ?t = (sim_reply ?t ''k'' True, e, s)"
    by (simp add: getter_first_read_def sim_locking_def sim_ops_def sim_init_def d Let_def)
  have "time_Now sim_locking ?t = 600000000" by (simp add: sim_locking_def sim_ops_def)
  with first_read [OF waited 2] have "herd sim_locking sim_lock 500 ''k'' [0, 600000000] s" by (simp add: r)
  from lock_once_per_wait [OF sim_setnx _ _ this] show ?thesis by simp
qed

end
