(* ===== verification/Redis_Client.thy ===== *)
theory Redis_Client
  imports Cache_Client
begin

text \<open>
  \<open>NewRedisCacheClient\<close> of \<open>src/cache_service.go\<close>: the two Redis clients and the options they keep, the
  groupcache pool and the loop that follows the set of cluster nodes in Redis, and the address of the
  groupcache server. Options are shared through pointers, so they live in a heap, a list addressed by
  position. Parsing of URLs, the Redis commands and the pool are parameters.
\<close>

subsection \<open>The options of a cluster client\<close>

record tls_config =
  InsecureSkipVerify :: bool

record cluster_options =
  opt_TLSConfig :: "tls_config option"
  opt_RouteByLatency :: bool
  opt_ReadOnly :: bool

text \<open>A cluster client keeps the pointer it was made with; a client of a single server is known by its
  options.\<close>

datatype 'o redis_conn = ClusterConn nat | SingleConn 'o

text \<open>\<open>(?i)(\?)?&?(ssl_cert_reqs=\w+)\<close>, and \<open>ReplaceAllString\<close> with the template \<open>$1\<close> for patterns that
  take at least one byte, as this one does.\<close>

definition redisUrlRemoveUnexpectedOptionRegex :: rx where
  "redisUrlRemoveUnexpectedOptionRegex =
     Seq (Opt (Grp 1 (Lit ''?''))) (Seq (Opt (Lit ''&'')) (Grp 2 (Seq (LitCi ''ssl_cert_reqs='') (PlusC rx_word_ci))))"

lemma rx_find_shorter:
  assumes "rx_find r b s = Some (pre, u, v, cs)" and "u \<noteq> []"
  shows "length v < length s"
proof -
  from rx_find_Some [OF assms(1)] obtain w where "skips s pre w" and "rx_match r (b \<and> pre = []) w u v cs" by blast
  then have "pre @ w = s" and "u @ v = w" by (auto dest: skips_split rx_match_split)
  then have "length s = length pre + length u + length v" by auto
  with assms(2) show ?thesis by (cases u) auto
qed

function replace_all_1 :: "rx \<Rightarrow> bool \<Rightarrow> bytes \<Rightarrow> bytes" where
  "replace_all_1 r b s =
     (case rx_find r b s of
        None \<Rightarrow> s
      | Some (pre, u, v, cs) \<Rightarrow> if u = [] then s else pre @ capture cs 1 @ replace_all_1 r False v)"
  by pat_completeness auto
termination
  by (relation "measure (\<lambda>(r, b, s). length s)") (auto dest: rx_find_shorter)

declare replace_all_1.simps [simp del]

definition connect_cluster ::
  "(string \<Rightarrow> string + cluster_options) \<Rightarrow> string \<Rightarrow> cluster_options list \<Rightarrow>
     (string, ('o redis_conn \<times> 'o redis_conn) \<times> cluster_options list) result" where
  "connect_cluster ParseClusterURL redisClusterUrl heap =
     (let clusterUrl = replace_all_1 redisUrlRemoveUnexpectedOptionRegex True redisClusterUrl
      in case ParseClusterURL clusterUrl of
           Inl err \<Rightarrow> Err err
         | Inr opt \<Rightarrow>
             (let clusterOpt = length heap;
                  heap = heap @ [opt]
              in case opt_TLSConfig opt of
                   None \<Rightarrow> Panic NilDereference
                 | Some tls \<Rightarrow>
                     (let heap = heap[clusterOpt := opt\<lparr>opt_TLSConfig := Some (tls\<lparr>InsecureSkipVerify := True\<rparr>)\<rparr>];
                          readOnlyClusterOpt = clusterOpt;
                          redisClient = ClusterConn clusterOpt;
                          heap = heap[readOnlyClusterOpt := (heap ! readOnlyClusterOpt)\<lparr>opt_RouteByLatency := True\<rparr>];
                          heap = heap[readOnlyClusterOpt := (heap ! readOnlyClusterOpt)\<lparr>opt_ReadOnly := True\<rparr>];
                          redisClientReader = ClusterConn readOnlyClusterOpt
                      in Ok ((redisClient, redisClientReader), heap))))"

definition connect_single ::
  "(string \<Rightarrow> string + 'o) \<Rightarrow> string \<Rightarrow> string \<Rightarrow> (string, 'o redis_conn \<times> 'o redis_conn) result" where
  "connect_single ParseURL redisUrl redisReaderUrl =
     (case ParseURL redisUrl of
        Inl err \<Rightarrow> Err err
      | Inr opt \<Rightarrow>
          (let redisReaderUrl = (if redisReaderUrl = [] then redisUrl else redisReaderUrl)
           in case ParseURL redisReaderUrl of
                Inl err \<Rightarrow> Err err
              | Inr readerOpt \<Rightarrow> Ok (SingleConn opt, SingleConn readerOpt)))"

subsection \<open>The cluster of groupcache nodes\<close>

datatype members_error = ErrClosed | MembersError string

record 'w node_ops =
  node_SAdd :: "string \<Rightarrow> string list \<Rightarrow> 'w \<Rightarrow> 'w"
  node_SMembers :: "string \<Rightarrow> 'w \<Rightarrow> (members_error + string list) \<times> 'w"
  pool_Set :: "string list \<Rightarrow> 'w \<Rightarrow> 'w"
  loop_pipe :: "string \<Rightarrow> string \<Rightarrow> 'w \<Rightarrow> (string option \<times> (members_error + string list)) \<times> 'w"
  loop_Sleep :: "int \<Rightarrow> 'w \<Rightarrow> 'w"
  loop_Done :: "'w \<Rightarrow> bool"

text \<open>Joining the cluster. The result is the list the loop starts from, \<open>None\<close> when no loop is started; a
  nil list is the empty one.\<close>

definition join_cluster :: "'w node_ops \<Rightarrow> bool \<Rightarrow> string \<Rightarrow> 'w \<Rightarrow> string list option \<times> 'w" where
  "join_cluster ops disableAutoDiscovery groupcacheUrls w =
     (let groupcacheUrlsSlice = Split groupcacheUrls (CHR '','');
          groupcacheUrl = hd groupcacheUrlsSlice
      in if disableAutoDiscovery then (None, pool_Set ops groupcacheUrlsSlice w)
         else (let w = node_SAdd ops GroupCacheClusterNodesUrlKey groupcacheUrlsSlice w
               in case node_SMembers ops GroupCacheClusterNodesUrlKey w of
                    (Inl err, w) \<Rightarrow> (Some [], pool_Set ops groupcacheUrlsSlice w)
                  | (Inr groupcacheNodeUrls, w) \<Rightarrow>
                      (let groupcacheNodeUrls =
                             (if groupcacheUrl \<notin> set groupcacheNodeUrls then groupcacheNodeUrls @ [groupcacheUrl]
                              else groupcacheNodeUrls)
                       in (Some groupcacheNodeUrls, pool_Set ops groupcacheNodeUrls w))))"

text \<open>One turn of the loop: the list it goes on with, or \<open>None\<close> when the goroutine returns.\<close>

definition follow_round ::
  "'w node_ops \<Rightarrow> string \<Rightarrow> string list \<Rightarrow> 'w \<Rightarrow> string list option \<times> 'w" where
  "follow_round ops groupcacheUrl currentGroupcacheNodeUrls w =
     (if loop_Done ops w then (None, w)
      else (let w = loop_Sleep ops (1 * Second) w
            in case loop_pipe ops GroupCacheClusterNodesUrlKey groupcacheUrl w of
                 ((Some err, members), w) \<Rightarrow> (Some currentGroupcacheNodeUrls, w)
               | ((None, Inl ErrClosed), w) \<Rightarrow> (None, w)
               | ((None, Inl (MembersError err)), w) \<Rightarrow> (Some currentGroupcacheNodeUrls, w)
               | ((None, Inr groupcacheNodeUrls), w) \<Rightarrow>
                   if currentGroupcacheNodeUrls \<noteq> groupcacheNodeUrls
                   then (Some groupcacheNodeUrls, pool_Set ops groupcacheNodeUrls w)
                   else (Some currentGroupcacheNodeUrls, w)))"

subsection \<open>The address of the groupcache server\<close>

definition server_address :: "string \<Rightarrow> (string, string \<times> string) result" where
  "server_address groupcacheUrl =
     and_then (index (SplitN2 groupcacheUrl ''://'') 1) (\<lambda>serverAddr.
       map_result (\<lambda>serverPort. (serverAddr, serverPort)) (index (SplitN2 serverAddr '':'') 1))"

text \<open>\<open>regexp.MustCompile\<close> of \<open>\d+\.\d+\.\d+\.\d+:\<close> with the port behind it, which is part of the pattern. A port of ASCII
  characters that mean nothing special in a pattern is taken literally; for other ports the compiler of
  patterns is the parameter \<open>compile\<close>, and a text that it refuses panics.\<close>

definition literal_char :: "char \<Rightarrow> bool" where
  "literal_char c \<longleftrightarrow> (of_char c :: nat) < 128 \<and> c \<notin> set ''.+*?()|[]{}^$'' \<and> c \<noteq> CHR 0x5C"

definition groupcacheNodeUrlRegex :: "(string \<Rightarrow> rx option) \<Rightarrow> string \<Rightarrow> (string, rx) result" where
  "groupcacheNodeUrlRegex compile serverPort =
     (let digits = [CHR 0x5C, CHR ''d'', CHR ''+''];
          dot = [CHR 0x5C, CHR ''.''];
          dotted = \<lambda>rest. Seq (PlusC rx_digit) (Seq (Lit ''.'') rest)
      in if list_all literal_char serverPort
         then Ok (dotted (dotted (dotted (Seq (PlusC rx_digit) (Lit ('':'' @ serverPort))))))
         else (case compile (digits @ dot @ digits @ dot @ digits @ dot @ digits @ '':'' @ serverPort) of
                 None \<Rightarrow> Panic LibraryPanic
               | Some r \<Rightarrow> Ok r))"

subsection \<open>The options and the server of groupcache\<close>

record GroupcacheOptions =
  opt_cacheMaxSize :: int
  opt_waitETA :: u64
  opt_disableAutoDiscovery :: bool

definition NewGroupCacheOptions :: GroupcacheOptions where
  "NewGroupCacheOptions = \<lparr>opt_cacheMaxSize = 60000000, opt_waitETA = 1000, opt_disableAutoDiscovery = False\<rparr>"

record http_server =
  srv_Addr :: string
  srv_ReadTimeout :: int
  srv_WriteTimeout :: int
  srv_IdleTimeout :: int
  srv_operation :: string

definition groupcacheServer :: "string \<Rightarrow> http_server" where
  "groupcacheServer serverAddr =
     \<lparr>srv_Addr = serverAddr, srv_ReadTimeout = 5 * Second, srv_WriteTimeout = 10 * Second, srv_IdleTimeout = 60 * Second,
      srv_operation = ''/_groupcache/'' @ GroupCacheName @ ''/*''\<rparr>"

text \<open>The goroutine of the server: when \<open>ListenAndServe\<close> returns with an error, and it returns with no other
  value, \<open>log.Fatal\<close> ends the whole program with code 1, after a regular shutdown as well.\<close>

definition serve_groupcache :: "string option \<Rightarrow> nat option" where
  "serve_groupcache ListenAndServe = (case ListenAndServe of None \<Rightarrow> None | Some err \<Rightarrow> Some 1)"

subsection \<open>\<open>NewRedisCacheClient\<close>\<close>

record 'o new_client =
  nc_client :: cache_client
  nc_redisClient :: "'o redis_conn"
  nc_redisClientReader :: "'o redis_conn"
  nc_following :: "string list option"

definition NewRedisCacheClient ::
  "(string \<Rightarrow> rx option) \<Rightarrow> (string \<Rightarrow> string + cluster_options) \<Rightarrow> (string \<Rightarrow> string + 'o) \<Rightarrow> 'w node_ops \<Rightarrow>
     string \<Rightarrow> string \<Rightarrow> string \<Rightarrow> string \<Rightarrow> bool \<Rightarrow> cluster_options list \<Rightarrow> 'w \<Rightarrow>
     (string, 'o new_client \<times> cluster_options list \<times> 'w) result" where
  "NewRedisCacheClient compile ParseClusterURL ParseURL ops redisClusterUrl redisUrl redisReaderUrl groupcacheUrls
       disableAutoDiscovery heap w =
     and_then
       (if redisClusterUrl \<noteq> [] then connect_cluster ParseClusterURL redisClusterUrl heap
        else map_result (\<lambda>conns. (conns, heap)) (connect_single ParseURL redisUrl redisReaderUrl))
       (\<lambda>((redisClient, redisClientReader), heap).
          if groupcacheUrls = []
          then Ok (\<lparr>nc_client = \<lparr>has_groupcache = False, groupcacheServerUrl = [], nodeUrlRegex = Eps\<rparr>,
                    nc_redisClient = redisClient, nc_redisClientReader = redisClientReader, nc_following = None\<rparr>, heap, w)
          else (let groupcacheUrl = hd (Split groupcacheUrls (CHR '',''));
                    (following, w) = join_cluster ops disableAutoDiscovery groupcacheUrls w
                in and_then (server_address groupcacheUrl) (\<lambda>(serverAddr, serverPort).
                     map_result (\<lambda>regex.
                       (\<lparr>nc_client = \<lparr>has_groupcache = True, groupcacheServerUrl = groupcacheUrl, nodeUrlRegex = regex\<rparr>,
                         nc_redisClient = redisClient, nc_redisClientReader = redisClientReader,
                         nc_following = following\<rparr>, heap, w)) (groupcacheNodeUrlRegex compile serverPort))))"

subsection \<open>Properties\<close>

text \<open>Connecting to a Redis cluster. A URL the library parses without a TLS configuration (any \<open>redis://\<close>
  URL) panics. Otherwise the copy of the options made for the reader is a copy of the pointer: both
  clients keep the same options, and the writing client ends up with the read-only routing meant for the
  reader alone.\<close>

theorem cluster_clients_share_options:
  "case connect_cluster ParseClusterURL url heap of
     Err e \<Rightarrow> ParseClusterURL (replace_all_1 redisUrlRemoveUnexpectedOptionRegex True url) = Inl e
   | Panic p \<Rightarrow> p = NilDereference \<and>
       (\<exists>opt. ParseClusterURL (replace_all_1 redisUrlRemoveUnexpectedOptionRegex True url) = Inr opt \<and>
          opt_TLSConfig opt = None)
   | Ok ((writer, reader), heap') \<Rightarrow>
       writer = ClusterConn (length heap) \<and> reader = writer \<and>
       (\<exists>opt. heap' = heap @ [opt] \<and> opt_ReadOnly opt \<and> opt_RouteByLatency opt \<and>
          map_option InsecureSkipVerify (opt_TLSConfig opt) = Some True)"
  by (auto simp: connect_cluster_def Let_def split: sum.split option.split)

text \<open>Documented behaviour of the pool: its peers are those set last, and what the loop does besides leaves them
  alone. Nothing is assumed of what Redis lists: other nodes add and remove members at any time.\<close>

definition pool_laws :: "'w node_ops \<Rightarrow> ('w \<Rightarrow> string list) \<Rightarrow> bool" where
  "pool_laws ops peers \<longleftrightarrow>
     (\<forall>ns w. peers (pool_Set ops ns w) = ns) \<and>
     (\<forall>d w. peers (loop_Sleep ops d w) = peers w) \<and>
     (\<forall>k m w r w'. loop_pipe ops k m w = (r, w') \<longrightarrow> peers w' = peers w)"

text \<open>The states the loop of one node runs through: it joins, it takes turns, and whatever else happens in
  between leaves its own pool alone.\<close>

inductive following :: "'w node_ops \<Rightarrow> ('w \<Rightarrow> string list) \<Rightarrow> string \<Rightarrow> string list \<Rightarrow> 'w \<Rightarrow> bool"
  for ops peers own where
  joined: "join_cluster ops False urls w = (Some current, w') \<Longrightarrow> own = hd (Split urls (CHR '','')) \<Longrightarrow>
     following ops peers own current w'"
| turn: "following ops peers own current w \<Longrightarrow> follow_round ops own current w = (Some current', w') \<Longrightarrow>
     following ops peers own current' w'"
| elsewhere: "following ops peers own current w \<Longrightarrow> peers w' = peers w \<Longrightarrow> following ops peers own current w'"

lemma pool_lawsD:
  assumes "pool_laws ops peers"
  shows "peers (pool_Set ops ns w) = ns" and "peers (loop_Sleep ops d w) = peers w"
    and "loop_pipe ops k m w = (r, w') \<Longrightarrow> peers w' = peers w"
  using assms unfolding pool_laws_def by blast+

lemma join_peers:
  assumes "pool_laws ops peers" and "join_cluster ops False urls w = (Some current, w')"
  shows "hd (Split urls (CHR '','')) \<in> set (peers w') \<and> (current = [] \<or> current = peers w')"
proof -
  have "hd (Split urls (CHR '','')) \<in> set (Split urls (CHR '',''))" by simp
  with assms(2) show ?thesis
    by (auto simp: join_cluster_def Let_def pool_lawsD(1) [OF assms(1)] split: sum.splits prod.splits)
qed

text \<open>What a turn makes of the list the loop compares with and of the peers of the pool, when that list is the
  one of the pool or nil.\<close>

lemma turn_peers:
  assumes "pool_laws ops peers" and "follow_round ops own current w = (Some current', w')"
    and "current = [] \<or> current = peers w"
    and "loop_pipe ops GroupCacheClusterNodesUrlKey own (loop_Sleep ops (1 * Second) w) = (r, w1)"
  shows "case r of
      (None, Inr ns) \<Rightarrow> current' = ns \<and> (ns = [] \<or> peers w' = ns) \<and> (ns = [] \<longrightarrow> peers w' = [] \<or> peers w' = peers w)
    | _ \<Rightarrow> current' = current \<and> peers w' = peers w"
proof -
  note laws = pool_lawsD [OF assms(1)]
  have w1: "peers w1 = peers w" using laws(3) [OF assms(4)] by (simp add: laws(2))
  have "\<not> loop_Done ops w" using assms(2) by (auto simp: follow_round_def)
  then have round: "follow_round ops own current w =
      (case r of
         (Some err, members) \<Rightarrow> (Some current, w1)
       | (None, Inl ErrClosed) \<Rightarrow> (None, w1)
       | (None, Inl (MembersError err)) \<Rightarrow> (Some current, w1)
       | (None, Inr ns) \<Rightarrow> if current \<noteq> ns then (Some ns, pool_Set ops ns w1) else (Some current, w1))"
    unfolding follow_round_def Let_def assms(4) by (auto split: prod.split option.split sum.split members_error.split)
  show ?thesis
  proof (cases r)
    case (Pair err members)
    then show ?thesis
      using assms(2,3) w1 unfolding round
      by (cases err; cases members) (auto simp: laws(1) split: members_error.splits if_splits)
  qed
qed

lemma following_peers: "pool_laws ops peers \<Longrightarrow> following ops peers own current w \<Longrightarrow> current = [] \<or> current = peers w"
proof (rotate_tac, induction rule: following.induct)
  case (joined urls w current w')
  show ?case using join_peers [OF joined.prems joined.hyps(1)] by simp
next
  case (turn current w current' w')
  obtain r w1 where p: "loop_pipe ops GroupCacheClusterNodesUrlKey own (loop_Sleep ops (1 * Second) w) = (r, w1)" by fastforce
  note t = turn_peers [OF turn.prems turn.hyps(2) turn.IH [OF turn.prems] p]
  show ?case
  proof (cases "\<exists>ns. r = (None, Inr ns)")
    case True
    then obtain ns where "r = (None, Inr ns)" ..
    with t show ?thesis by auto
  next
    case False
    then have "current' = current" "peers w' = peers w"
      using t by (cases r; cases "fst r"; cases "snd r"; simp)+
    then show ?thesis using turn.IH [OF turn.prems] by simp
  qed
qed auto

text \<open>C36. The pool follows the cluster: in the loop of a node that has joined, a turn that Redis answers with a
  non-empty list of nodes leaves the pool with exactly these peers, although the loop sets them only when the
  list differs from its last one; after an empty list the pool is empty or as it was, and a turn that fails
  leaves it as it is. So a node that Redis does not list is no longer a peer of its own pool.\<close>

theorem pool_follows_cluster:
  assumes "pool_laws ops peers" and "following ops peers own current w"
    and "follow_round ops own current w = (Some current', w')"
    and "loop_pipe ops GroupCacheClusterNodesUrlKey own (loop_Sleep ops (1 * Second) w) = (r, w1)"
  shows "case r of
      (None, Inr ns) \<Rightarrow> current' = ns \<and> (if ns \<noteq> [] then peers w' = ns else peers w' = [] \<or> peers w' = peers w)
    | _ \<Rightarrow> current' = current \<and> peers w' = peers w"
  using turn_peers [OF assms(1,3) following_peers [OF assms(1,2)] assms(4)]
  by (cases r; cases "fst r"; cases "snd r"; auto)

text \<open>A cluster in which only the members in Redis and the peers are kept.\<close>

definition sim_nodes_ops :: "(string list \<times> string list) node_ops" where
  "sim_nodes_ops =
     \<lparr>node_SAdd = \<lambda>k ns (m, p). (m @ ns, p),
      node_SMembers = \<lambda>k (m, p). (Inr m, (m, p)),
      pool_Set = \<lambda>ns (m, p). (m, ns),
      loop_pipe = \<lambda>k n (m, p). ((None, Inr (if n \<in> set m then m else m @ [n])), (if n \<in> set m then m else m @ [n], p)),
      loop_Sleep = \<lambda>d s. s,
      loop_Done = \<lambda>s. False\<rparr>"

lemma sim_pool_laws: "pool_laws sim_nodes_ops snd"
  by (auto simp: pool_laws_def sim_nodes_ops_def split: if_splits)

theorem pool_follows_cluster_witness:
  "snd (snd (follow_round sim_nodes_ops ''a'' [''c'', ''a''] ([''b''], [''c'', ''a'']))) = [''b'', ''a'']"
proof -
  have "following sim_nodes_ops snd ''a'' [''c'', ''a''] ([''c'', ''a''], [''c'', ''a''])"
    by (rule joined [of _ "''a''" "([''c''], [])"]) (simp_all add: join_cluster_def sim_nodes_ops_def Let_def)
  then have f: "following sim_nodes_ops snd ''a'' [''c'', ''a''] ([''b''], [''c'', ''a''])"
    by (rule elsewhere) simp
  have t: "follow_round sim_nodes_ops ''a'' [''c'', ''a''] ([''b''], [''c'', ''a'']) =
      (Some [''b'', ''a''], ([''b'', ''a''], [''b'', ''a'']))"
    by (simp add: follow_round_def sim_nodes_ops_def)
  have p: "loop_pipe sim_nodes_ops GroupCacheClusterNodesUrlKey ''a'' (loop_Sleep sim_nodes_ops (1 * Second) ([''b''], [''c'', ''a''])) =
      ((None, Inr [''b'', ''a'']), ([''b'', ''a''], [''c'', ''a'']))"
    by (simp add: sim_nodes_ops_def)
  from pool_follows_cluster [OF sim_pool_laws f t p] show ?thesis by (simp add: t)
qed

lemma regex_outcome:
  "groupcacheNodeUrlRegex compile port \<noteq> Err e"
  "groupcacheNodeUrlRegex compile port = Panic p \<Longrightarrow> p = LibraryPanic"
  by (auto simp: groupcacheNodeUrlRegex_def Let_def split: if_splits option.splits)

lemma SplitN2_char: "c \<notin> set u \<Longrightarrow> SplitN2 (u @ c # v) [c] = [u, v]"
  by (induction u) (auto split: list.splits)

lemma server_address_of_url:
  assumes "CHR '':'' \<notin> set host"
  shows "server_address (''http://'' @ host @ '':'' @ port) = Ok (host @ '':'' @ port, port)"
  using SplitN2_char [OF assms, of port]
  by (simp add: server_address_def index_def)

end
