(* ===== verification/Local_Address.thy ===== *)
theory Local_Address
  imports Redis_Client
begin

text \<open>
  The address of this node in the groupcache cluster, \<open>src/net_ip.go\<close>, and \<open>setupRedisClient\<close> of
  \<open>src/main.go\<close>, which makes the cache client with it. The answers of the metadata services and of the
  system, \<open>net.ParseIP\<close> (whether it accepts a text) and the JSON decoder are parameters.
\<close>

subsection \<open>\<open>src/net_ip.go\<close>\<close>

record http_reply =
  agent_Parse :: "string option"
  agent_code :: nat
  agent_body :: bytes
  agent_errs :: "string list"

definition GetIpFromAwsEc2Metadata :: "(string \<Rightarrow> bool) \<Rightarrow> (string \<Rightarrow> http_reply) \<Rightarrow> string + string" where
  "GetIpFromAwsEc2Metadata ParseIP fetch =
     (let agent = fetch ''http://169.254.169.254/latest/meta-data/local-ipv4''
      in case agent_Parse agent of
           Some err \<Rightarrow> Inl err
         | None \<Rightarrow>
             if length (agent_errs agent) > 0 then Inl (agent_errs agent ! 0)
             else if agent_code agent = 200
             then (let localAddress = agent_body agent
                   in if ParseIP localAddress then Inr localAddress else Inl ''invalid local ipv4 address'')
             else Inl (''failed to get local ipv4 address. Metadata endpoint response with code: '' @
                       FormatInt (int (agent_code agent))))"

record EcsNetworkInterface =
  NetworkMode :: string
  IPv4Addresses :: "string list"

record EcsContainerMetadata =
  Networks :: "EcsNetworkInterface list"

definition GetIpFromAwsEcsContainerMetadata ::
  "(string \<Rightarrow> bool) \<Rightarrow> (bytes \<Rightarrow> string + EcsContainerMetadata) \<Rightarrow> string \<Rightarrow> (string \<Rightarrow> http_reply) \<Rightarrow> string + string" where
  "GetIpFromAwsEcsContainerMetadata ParseIP unmarshal metadataUri fetch =
     (if metadataUri = [] then Inl ''ECS_CONTAINER_METADATA_URI is not set''
      else (let agent = fetch metadataUri
            in case agent_Parse agent of
                 Some err \<Rightarrow> Inl err
               | None \<Rightarrow>
                   if length (agent_errs agent) > 0 then Inl (agent_errs agent ! 0)
                   else if agent_code agent = 200
                   then (case unmarshal (agent_body agent) of
                           Inl err \<Rightarrow> Inl err
                         | Inr taskMetadata \<Rightarrow>
                             if length (Networks taskMetadata) = 0 then Inl ''no network interfaces found''
                             else (let iPv4Addresses = IPv4Addresses (Networks taskMetadata ! 0)
                                   in if length iPv4Addresses = 0 then Inl ''no ipv4 addresses found''
                                      else (let localAddress = iPv4Addresses ! 0
                                            in if ParseIP localAddress then Inr localAddress
                                               else Inl ''invalid local ipv4 address'')))
                   else Inl (''failed to get local ipv4 address. Metadata endpoint response with code: '' @
                             FormatInt (int (agent_code agent)))))"

text \<open>An address of an interface: an \<open>IPNet\<close> that is loopback or not, has an IPv4 form or not, and prints as
  a text; or an address of another type.\<close>

datatype net_addr = IPNet bool bool string | OtherAddr

fun first_ipv4 :: "net_addr list \<Rightarrow> string option" where
  "first_ipv4 [] = None"
| "first_ipv4 (IPNet loopback to4 text # addrs) =
     (if \<not> loopback \<and> to4 then Some text else first_ipv4 addrs)"
| "first_ipv4 (OtherAddr # addrs) = first_ipv4 addrs"

definition GetIpFromHostNetInterfaces :: "string + net_addr list \<Rightarrow> string + string" where
  "GetIpFromHostNetInterfaces interface_addrs =
     (case interface_addrs of
        Inl err \<Rightarrow> Inl err
      | Inr addrs \<Rightarrow>
          (case first_ipv4 addrs of
             Some ip \<Rightarrow> Inr ip
           | None \<Rightarrow> Inl ''failed to get local ipv4 address. No valid ipv4 address found''))"

subsection \<open>\<open>setupRedisClient\<close>\<close>

record net_env =
  net_ParseIP :: "string \<Rightarrow> bool"
  net_fetch :: "string \<Rightarrow> http_reply"
  net_ecs_unmarshal :: "bytes \<Rightarrow> string + EcsContainerMetadata"
  net_ecs_uri :: string
  net_interfaces :: "string + net_addr list"

text \<open>The address of this node, and whether auto discovery is disabled.\<close>

definition local_address :: "net_env \<Rightarrow> string \<Rightarrow> string \<times> bool" where
  "local_address env clusterMode =
     (let localAddress = ''127.0.0.1'';
          found = (\<lambda>r. case r of Inl err \<Rightarrow> localAddress | Inr address \<Rightarrow> address)
      in if clusterMode = ''aws_ec2''
         then (found (GetIpFromAwsEc2Metadata (net_ParseIP env) (net_fetch env)), False)
         else if clusterMode = ''aws_ecs''
         then (found (GetIpFromAwsEcsContainerMetadata (net_ParseIP env) (net_ecs_unmarshal env) (net_ecs_uri env)
                        (net_fetch env)), False)
         else if clusterMode = ''host_ipnet''
         then (found (GetIpFromHostNetInterfaces (net_interfaces env)), False)
         else (localAddress, True))"

record redis_cfg =
  cfg_redis_url :: string
  cfg_redis_cluster_url :: string
  cfg_redis_reader_url :: string
  cfg_cluster_mode :: string
  cfg_groupcache_port :: string

definition setupRedisClient ::
  "net_env \<Rightarrow> (string \<Rightarrow> rx option) \<Rightarrow> (string \<Rightarrow> string + cluster_options) \<Rightarrow> (string \<Rightarrow> string + 'o) \<Rightarrow> 'w node_ops \<Rightarrow>
     ('o redis_conn \<Rightarrow> 'w \<Rightarrow> string option \<times> 'w) \<Rightarrow> redis_cfg \<Rightarrow> cluster_options list \<Rightarrow> 'w \<Rightarrow>
     (string, 'o new_client option \<times> 'w) result" where
  "setupRedisClient env compile ParseClusterURL ParseURL ops ping cfg heap w =
     (if cfg_redis_url cfg = [] \<and> cfg_redis_cluster_url cfg = [] then Ok (None, w)
      else (let (localAddress, disableAutoDiscovery) = local_address env (cfg_cluster_mode cfg)
            in case NewRedisCacheClient compile ParseClusterURL ParseURL ops (cfg_redis_cluster_url cfg) (cfg_redis_url cfg)
                      (cfg_redis_reader_url cfg) (''http://'' @ localAddress @ '':'' @ cfg_groupcache_port cfg)
                      disableAutoDiscovery heap w of
                 Panic p \<Rightarrow> Panic p
               | Err err \<Rightarrow> Ok (None, w)
               | Ok (client, heap, w) \<Rightarrow>
                   (case ping (nc_redisClient client) w of
                      (Some err, w) \<Rightarrow> Ok (None, w)
                    | (None, w) \<Rightarrow>
                        (case ping (nc_redisClientReader client) w of
                           (Some err, w) \<Rightarrow> Ok (None, w)
                         | (None, w) \<Rightarrow> Ok (Some client, w)))))"

subsection \<open>Properties\<close>

lemma found_is_valid:
  "GetIpFromAwsEc2Metadata P f = Inr a \<Longrightarrow> P a"
  "GetIpFromAwsEcsContainerMetadata P u m f = Inr a \<Longrightarrow> P a"
  by (auto simp: GetIpFromAwsEc2Metadata_def GetIpFromAwsEcsContainerMetadata_def Let_def
      split: option.splits if_splits sum.splits)

lemma first_ipv4_Some: "first_ipv4 addrs = Some a \<Longrightarrow> IPNet False True a \<in> set addrs"
  by (induction addrs rule: first_ipv4.induct) (auto split: if_splits)

text \<open>The address a node joins the cluster under: an address the validation accepts, or an IPv4 address
  of a non-loopback interface; or the fallback 127.0.0.1. Auto discovery is off exactly when the mode is
  none of \<open>aws_ec2\<close>, \<open>aws_ecs\<close> and \<open>host_ipnet\<close>. So when the discovery fails, the node still joins the shared
  cluster, under an address every other node takes for itself.\<close>

theorem local_address_sources:
  "case local_address env mode of (a, disabled) \<Rightarrow>
     disabled = (mode \<notin> {''aws_ec2'', ''aws_ecs'', ''host_ipnet''}) \<and>
     (a = ''127.0.0.1'' \<or> net_ParseIP env a \<or>
      (\<exists>addrs. net_interfaces env = Inr addrs \<and> IPNet False True a \<in> set addrs)) \<and>
     local_address (env\<lparr>net_fetch := \<lambda>_. \<lparr>agent_Parse = None, agent_code = 500, agent_body = [], agent_errs = []\<rparr>\<rparr>)
       ''aws_ec2'' = (''127.0.0.1'', False)"
  by (auto simp: local_address_def Let_def GetIpFromHostNetInterfaces_def GetIpFromAwsEc2Metadata_def [of _ "\<lambda>_. _"]
      dest: found_is_valid first_ipv4_Some split: sum.splits option.splits)

text \<open>With Redis configured, setting up the cache client panics only for a cluster URL without TLS, or for a
  groupcache port that makes no pattern; otherwise, with a local address without a colon, the server gets that
  address and port.\<close>

theorem setup_panics_only_without_tls:
  assumes "CHR '':'' \<notin> set (fst (local_address env (cfg_cluster_mode cfg)))"
    and "CHR '','' \<notin> set (fst (local_address env (cfg_cluster_mode cfg))) \<union> set (cfg_groupcache_port cfg)"
    and "setupRedisClient env compile ParseClusterURL ParseURL ops ping cfg heap w = Panic p"
  shows "p = NilDereference \<and> cfg_redis_cluster_url cfg \<noteq> [] \<and>
      (\<exists>opt. ParseClusterURL (replace_all_1 redisUrlRemoveUnexpectedOptionRegex True (cfg_redis_cluster_url cfg)) = Inr opt \<and>
         opt_TLSConfig opt = None) \<or>
    p = LibraryPanic \<and> groupcacheNodeUrlRegex compile (cfg_groupcache_port cfg) = Panic p"
proof -
  obtain a d where l: "local_address env (cfg_cluster_mode cfg) = (a, d)" by fastforce
  let ?url = "''http://'' @ a @ '':'' @ cfg_groupcache_port cfg"
  have "Split ?url (CHR '','') = [?url]" using assms(2) by (intro Split_no_sep) (auto simp: l)
  moreover have "server_address ?url = Ok (a @ '':'' @ cfg_groupcache_port cfg, cfg_groupcache_port cfg)"
    using assms(1) by (intro server_address_of_url) (simp add: l)
  moreover obtain f w1 where "join_cluster ops d ?url w = (f, w1)" by fastforce
  ultimately show ?thesis
    using assms(3) regex_outcome [of compile "cfg_groupcache_port cfg"]
    by (cases "groupcacheNodeUrlRegex compile (cfg_groupcache_port cfg)")
      (auto simp: setupRedisClient_def NewRedisCacheClient_def l connect_cluster_def connect_single_def Let_def go_simps
        split: if_splits result.splits prod.splits option.splits sum.splits)
qed

definition sim_net :: net_env where
  "sim_net =
     \<lparr>net_ParseIP = \<lambda>_. True, net_fetch = \<lambda>_. \<lparr>agent_Parse = None, agent_code = 200, agent_body = [], agent_errs = []\<rparr>,
      net_ecs_unmarshal = \<lambda>_. Inl ''no'', net_ecs_uri = [],
      net_interfaces = Inr [IPNet True True ''127.0.0.1'', IPNet False True ''10.0.0.7'']\<rparr>"

definition sim_redis_cfg :: redis_cfg where
  "sim_redis_cfg =
     \<lparr>cfg_redis_url = [], cfg_redis_cluster_url = ''redis://h:6379'', cfg_redis_reader_url = [],
      cfg_cluster_mode = ''host_ipnet'', cfg_groupcache_port = ''8879''\<rparr>"

definition no_tls :: "string \<Rightarrow> string + cluster_options" where
  "no_tls url = Inr \<lparr>opt_TLSConfig = None, opt_RouteByLatency = False, opt_ReadOnly = False\<rparr>"

theorem setup_panics_only_without_tls_witness:
  "\<exists>opt. no_tls (replace_all_1 redisUrlRemoveUnexpectedOptionRegex True ''redis://h:6379'') = Inr opt \<and> opt_TLSConfig opt = None"
proof -
  have "setupRedisClient sim_net (\<lambda>_. None) no_tls (\<lambda>_. Inr ()) sim_nodes_ops (\<lambda>_ w. (None, w)) sim_redis_cfg [] ([], []) =
      Panic NilDereference"
    by (simp add: setupRedisClient_def NewRedisCacheClient_def connect_cluster_def no_tls_def sim_redis_cfg_def Let_def
        split: prod.split)
  moreover have "local_address sim_net (cfg_cluster_mode sim_redis_cfg) = (''10.0.0.7'', False)"
    by (simp add: local_address_def sim_net_def sim_redis_cfg_def GetIpFromHostNetInterfaces_def)
  ultimately show ?thesis
    using setup_panics_only_without_tls [of sim_net sim_redis_cfg "\<lambda>_. None" no_tls "\<lambda>_. Inr ()" sim_nodes_ops "\<lambda>_ w. (None, w)" "[]"
        "([], [])" NilDereference]
    by (simp add: sim_redis_cfg_def)
qed

end
