(* ===== verification/Engine_Servers.thy ===== *)
theory Engine_Servers
  imports Regex Gostrings
begin

text \<open>
  The supervisor of \<open>src/graphql_engine_servers.go\<close>: the commands of the scripting server, the primary
  engine and the replica, the loops that wait for them to be ready, and the loop that watches them and
  reports at shutdown. Processes, contexts, the clock and the health probe are operations of an abstract
  world, durations are in milliseconds. Goroutines that only wait for a process are part of \<open>proc_states\<close>, which says how the processes
  have ended so far.
\<close>

subsection \<open>The commands\<close>

text \<open>\<open>cmd_Env\<close> is \<open>None\<close> for the inherited environment; \<open>cmd_sigterm\<close> says that \<open>Cancel\<close> sends SIGTERM instead of
  killing.\<close>

record command =
  cmd_name :: string
  cmd_args :: "string list"
  cmd_Env :: "string list option"
  cmd_sigterm :: bool

definition scripting_command :: command where
  "scripting_command =
     \<lparr>cmd_name = ''python3'',
      cmd_args = [''/graphql-engine/scripting/server.py'', ''--path'', ''/tmp/scripting.sock'', ''--port'', ''8880''],
      cmd_Env = None, cmd_sigterm = True\<rparr>"

definition primary_command :: command where
  "primary_command =
     \<lparr>cmd_name = ''graphql-engine'', cmd_args = [''serve'', ''--server-port'', ''8881''], cmd_Env = None,
      cmd_sigterm = True\<rparr>"

definition env_assignment_regex :: rx where
  "env_assignment_regex = Seq Bol (Seq (PlusC rx_word) (Lit ''=''))"

definition replica_Env :: "string list \<Rightarrow> string \<Rightarrow> string list" where
  "replica_Env cmd2Env hasuraGqlReadReplicaUrls =
     (let replicaUrlList = Split hasuraGqlReadReplicaUrls (CHR '','')
      in if length replicaUrlList > 1 then cmd2Env @ replicaUrlList
         else (let replicaUrl = replicaUrlList ! 0
               in if MatchString env_assignment_regex replicaUrl then cmd2Env @ [replicaUrl]
                  else cmd2Env @ [''HASURA_GRAPHQL_DATABASE_URL='' @ replicaUrl]))"

definition replica_command :: "string list \<Rightarrow> string \<Rightarrow> string \<Rightarrow> string \<Rightarrow> command" where
  "replica_command environ metadataDatabaseUrl databaseUrl hasuraGqlReadReplicaUrls =
     (let hasuraGqlMetadataDatabaseUrl = (if metadataDatabaseUrl = [] then databaseUrl else metadataDatabaseUrl)
      in \<lparr>cmd_name = ''graphql-engine'',
          cmd_args = [''--metadata-database-url'', hasuraGqlMetadataDatabaseUrl, ''serve'', ''--server-port'', ''8882''],
          cmd_Env = Some (replica_Env environ hasuraGqlReadReplicaUrls), cmd_sigterm = False\<rparr>)"

definition engine_commands :: "string list \<Rightarrow> string \<Rightarrow> string \<Rightarrow> string \<Rightarrow> command list" where
  "engine_commands environ metadataDatabaseUrl databaseUrl hasuraGqlReadReplicaUrls =
     [scripting_command, primary_command] @
     (if hasuraGqlReadReplicaUrls \<noteq> []
      then [replica_command environ metadataDatabaseUrl databaseUrl hasuraGqlReadReplicaUrls] else [])"

text \<open>The commands are started one after the other; the first one that fails ends the program.\<close>

datatype start_outcome = Started | OsExit nat

fun start_commands :: "(command \<Rightarrow> 'w \<Rightarrow> string option \<times> 'w) \<Rightarrow> command list \<Rightarrow> 'w \<Rightarrow> start_outcome \<times> 'w" where
  "start_commands start [] w = (Started, w)"
| "start_commands start (cmd # cmds) w =
     (case start cmd w of
        (Some err, w) \<Rightarrow> (OsExit 1, w)
      | (None, w) \<Rightarrow> start_commands start cmds w)"

text \<open>\<open>ParseLog\<close>: what is printed of the lines of the replica.\<close>

definition ParseLog :: "string list \<Rightarrow> string list" where
  "ParseLog lines =
     filter (\<lambda>line. \<not> Contains line ''cannot set transaction read-write mode during recovery'') lines"

subsection \<open>Waiting for a server to be ready\<close>

text \<open>One loop of the two: the context of this startup, the probe of the health URL (its status code), and
  the function that ends the startup. It takes fuel; \<open>None\<close> is running out of it.\<close>

record 'w startup_ops =
  su_Err :: "'w \<Rightarrow> string option"
  su_Sleep :: "int \<Rightarrow> 'w \<Rightarrow> 'w"
  su_Get :: "string \<Rightarrow> 'w \<Rightarrow> nat \<times> 'w"
  su_Done :: "'w \<Rightarrow> 'w"
  su_Now :: "'w \<Rightarrow> int"

datatype startup_result = Ready | NotReady

fun wait_startup :: "nat \<Rightarrow> 'w startup_ops \<Rightarrow> string \<Rightarrow> 'w \<Rightarrow> (startup_result \<times> 'w) option" where
  "wait_startup 0 ops url w = None"
| "wait_startup (Suc n) ops url w =
     (if su_Err ops w \<noteq> None then Some (NotReady, w)
      else (let w = su_Sleep ops 500 w;
                (code, w) = su_Get ops url w
            in if code = 200 then Some (Ready, su_Done ops w) else wait_startup n ops url w))"

definition replica_health_url :: string where
  "replica_health_url = ''http://localhost:8882/healthz''"

definition engine_health_url :: string where
  "engine_health_url = ''http://localhost:8880/health/engine?quite=true&not=replica''"

subsection \<open>Watching the processes\<close>

text \<open>How a process has ended: by exiting (with any code) or by a signal, with success or not.\<close>

record proc_state =
  ps_Exited :: bool
  ps_Success :: bool
  ps_String :: string

record 'w super_ops =
  sp_Done :: "'w \<Rightarrow> bool"
  sp_Wait :: "'w \<Rightarrow> 'w"
  sp_states :: "'w \<Rightarrow> proc_state option list"
  sp_cancelMain :: "'w \<Rightarrow> 'w"
  sp_Sleep :: "int \<Rightarrow> 'w \<Rightarrow> 'w"

definition process_name :: "nat \<Rightarrow> string" where
  "process_name idx =
     (if idx = 0 then ''scripting-server'' else if idx = 1 then ''graphql-engine:primary''
      else if idx = 2 then ''graphql-engine:replica'' else ''-'')"

fun errString :: "nat \<Rightarrow> proc_state option list \<Rightarrow> string" where
  "errString idx [] = []"
| "errString idx (None # sts) = errString (Suc idx) sts"
| "errString idx (Some st # sts) =
     (if ps_Exited st then []
      else if idx < 2 then ps_String st @ '' ['' @ process_name idx @ '']'' @ [CHR 0x0A] else []) @
     errString (Suc idx) sts"

definition shutdown_error :: "proc_state option list \<Rightarrow> string option" where
  "shutdown_error sts = (if errString 0 sts \<noteq> [] then Some (errString 0 sts) else None)"

text \<open>The scan of the processes: the main context is cancelled for every one that has ended.\<close>

fun scan :: "'w super_ops \<Rightarrow> proc_state option list \<Rightarrow> bool \<Rightarrow> 'w \<Rightarrow> bool \<times> 'w" where
  "scan ops [] check w = (check, w)"
| "scan ops (None # sts) check w = scan ops sts check w"
| "scan ops (Some st # sts) check w = scan ops sts False (sp_cancelMain ops w)"

text \<open>The watch loop, with fuel. It ends with the one error value sent to the shutdown channel, before the
  channel is closed.\<close>

fun watch :: "nat \<Rightarrow> 'w super_ops \<Rightarrow> bool \<Rightarrow> 'w \<Rightarrow> (string option \<times> 'w) option" where
  "watch 0 ops check w = None"
| "watch (Suc n) ops check w =
     (if sp_Done ops w
      then (let w = sp_Wait ops w in Some (shutdown_error (sp_states ops w), w))
      else (let (check, w) = (if check then scan ops (sp_states ops w) check w else (check, w))
            in watch n ops check (sp_Sleep ops 1000 w)))"

subsection \<open>Properties\<close>

lemma rx_word_small: "rx_word r \<Longrightarrow> r < 128"
  by (auto simp: rx_word_def rx_digit_def)

lemma env_assignment_iff:
  "MatchString env_assignment_regex s \<longleftrightarrow>
     (\<exists>k v. s = k @ ''='' @ v \<and> k \<noteq> [] \<and> list_all (\<lambda>c. rx_word (of_char c)) k)"
  by (auto simp: env_assignment_regex_def MatchString_anchored match_Seq match_PlusC_ascii [OF rx_word_small] list_all_iff)

lemma Split_several: "length (Split s sep) > 1 \<longleftrightarrow> sep \<in> set s"
  by (induction s) (auto split: list.split)

text \<open>The environment of the replica: several URLs are taken as they are, each an assignment of its own; a
  single one is taken as it is when it begins with a name and an equals sign, and otherwise becomes the
  value of \<open>HASURA_GRAPHQL_DATABASE_URL\<close>. The inherited variables come first, so that the added ones win.\<close>

theorem replica_environment:
  "replica_Env environ urls = environ @
     (if CHR '','' \<in> set urls then Split urls (CHR '','')
      else if \<exists>k v. urls = k @ ''='' @ v \<and> k \<noteq> [] \<and> list_all (\<lambda>c. rx_word (of_char c)) k then [urls]
      else [''HASURA_GRAPHQL_DATABASE_URL='' @ urls])"
proof (cases "CHR '','' \<in> set urls")
  case True
  then show ?thesis using Split_several [of urls "CHR '',''"] by (simp add: replica_Env_def Let_def)
next
  case False
  then show ?thesis by (simp add: replica_Env_def Split_no_sep env_assignment_iff)
qed

text \<open>Documented behaviour: \<open>Sleep\<close> lasts at least as long as asked, the other calls take time or none, and the
  context has an error from its deadline on.\<close>

definition startup_laws :: "'w startup_ops \<Rightarrow> int \<Rightarrow> bool" where
  "startup_laws ops deadline \<longleftrightarrow>
     (\<forall>d w. su_Now ops w + d \<le> su_Now ops (su_Sleep ops d w)) \<and>
     (\<forall>url w. su_Now ops w \<le> su_Now ops (snd (su_Get ops url w))) \<and>
     (\<forall>w. deadline \<le> su_Now ops w \<longrightarrow> su_Err ops w \<noteq> None)"

lemma wait_startup_enough:
  assumes "startup_laws ops deadline"
  shows "deadline - su_Now ops w \<le> 500 * int n \<Longrightarrow> \<exists>r. wait_startup (Suc n) ops url w = Some r"
proof (induction n arbitrary: w)
  case 0
  then have "su_Err ops w \<noteq> None" using assms by (simp add: startup_laws_def)
  then show ?case by simp
next
  case (Suc n)
  obtain code w' where g: "su_Get ops url (su_Sleep ops 500 w) = (code, w')" by fastforce
  have "su_Now ops w + 500 \<le> su_Now ops (su_Sleep ops 500 w)" using assms by (simp add: startup_laws_def)
  also have "\<dots> \<le> su_Now ops (snd (su_Get ops url (su_Sleep ops 500 w)))" using assms by (simp add: startup_laws_def)
  finally have "deadline - su_Now ops w' \<le> 500 * int n" using Suc.prems by (simp add: g)
  from Suc.IH [OF this] show ?case by (subst wait_startup.simps) (simp add: g Let_def del: wait_startup.simps)
qed

lemma wait_startup_ready:
  "wait_startup n ops url w = Some (r, w') \<Longrightarrow>
     (r = Ready \<longleftrightarrow> (\<exists>w1 w2. su_Get ops url w1 = (200, w2) \<and> w' = su_Done ops w2 \<and> r = Ready)) \<and>
     (r = NotReady \<longrightarrow> su_Err ops w' \<noteq> None)"
  by (induction n arbitrary: w) (auto simp: Let_def split: if_splits prod.splits)

text \<open>Waiting for a server ends: a startup with a deadline \<open>t\<close> milliseconds away takes at most
  \<open>t / 500 + 2\<close> rounds. It ends as ready only after a probe that answered 200, and gives up only when the
  startup context has an error.\<close>

theorem startup_wait_ends:
  assumes "startup_laws ops deadline"
    and "n = nat ((deadline - su_Now ops w) div 500) + 2"
  shows "\<exists>r w'. wait_startup n ops url w = Some (r, w') \<and>
    (r = Ready \<longrightarrow> (\<exists>w1 w2. su_Get ops url w1 = (200, w2) \<and> w' = su_Done ops w2)) \<and>
    (r = NotReady \<longrightarrow> su_Err ops w' \<noteq> None)"
proof -
  let ?d = "deadline - su_Now ops w"
  have "?d \<le> 500 * int (nat (?d div 500) + 1)"
  proof (cases "0 \<le> ?d")
    case True
    then have "int (nat (?d div 500)) = ?d div 500" by (simp add: pos_imp_zdiv_nonneg_iff)
    moreover have "?d < 500 * (?d div 500) + 500" using pos_mod_bound [of 500 ?d] mult_div_mod_eq [of 500 ?d] by linarith
    ultimately show ?thesis by simp
  qed simp
  from wait_startup_enough [OF assms(1) this, of url] obtain r w' where "wait_startup n ops url w = Some (r, w')"
    by (auto simp: assms(2) simp del: wait_startup.simps)
  with wait_startup_ready [OF this] show ?thesis by blast
qed

text \<open>A world that is only a clock: the startup has 60 seconds, and the probe answers 200 after three.\<close>

definition clock_startup :: "int startup_ops" where
  "clock_startup =
     \<lparr>su_Err = \<lambda>t. if 60000 \<le> t then Some ''context deadline exceeded'' else None,
      su_Sleep = \<lambda>d t. t + d,
      su_Get = \<lambda>url t. (if 3000 \<le> t then 200 else 503, t),
      su_Done = \<lambda>t. t,
      su_Now = \<lambda>t. t\<rparr>"

theorem startup_wait_ends_witness:
  "\<exists>r t. wait_startup 122 clock_startup engine_health_url 0 = Some (r, t)"
proof -
  have "startup_laws clock_startup 60000" by (simp add: startup_laws_def clock_startup_def)
  from startup_wait_ends [OF this, of 122 0 engine_health_url] show ?thesis
    by (auto simp: clock_startup_def)
qed

lemma errString_Cons:
  "errString k (x # xs) =
     (case x of
        Some st \<Rightarrow> if ps_Exited st \<or> 2 \<le> k then [] else ps_String st @ '' ['' @ process_name k @ '']'' @ [CHR 0x0A]
      | None \<Rightarrow> []) @ errString (Suc k) xs"
  by (cases x) auto

lemma errString_Nil_iff:
  "errString k sts = [] \<longleftrightarrow> (\<forall>i < length sts. k + i < 2 \<longrightarrow> (case sts ! i of Some st \<Rightarrow> ps_Exited st | None \<Rightarrow> True))"
proof (induction sts arbitrary: k)
  case (Cons x xs)
  have "(\<forall>i < length (x # xs). k + i < 2 \<longrightarrow> (case (x # xs) ! i of Some st \<Rightarrow> ps_Exited st | None \<Rightarrow> True)) \<longleftrightarrow>
      (k < 2 \<longrightarrow> (case x of Some st \<Rightarrow> ps_Exited st | None \<Rightarrow> True)) \<and>
      (\<forall>i < length xs. Suc k + i < 2 \<longrightarrow> (case xs ! i of Some st \<Rightarrow> ps_Exited st | None \<Rightarrow> True))"
    by (simp add: All_less_Suc2)
  with Cons.IH [of "Suc k"] show ?case by (auto simp: errString_Cons split: option.split)
qed simp

text \<open>What the shutdown reports: an error exactly when the scripting server or the primary engine was
  ended by a signal. The replica is never the reason, and neither is an exit with an error code: a primary
  engine that crashed with code 1 is reported as a success.\<close>

theorem shutdown_reports_signals_only:
  "shutdown_error sts = None \<longleftrightarrow> list_all (\<lambda>st. case st of Some st \<Rightarrow> ps_Exited st | None \<Rightarrow> True) (take 2 sts)"
proof -
  have "shutdown_error sts = None \<longleftrightarrow> errString 0 sts = []" by (simp add: shutdown_error_def)
  also have "\<dots> \<longleftrightarrow> list_all (\<lambda>st. case st of Some st \<Rightarrow> ps_Exited st | None \<Rightarrow> True) (take 2 sts)"
    unfolding errString_Nil_iff list_all_length by auto
  finally show ?thesis .
qed

text \<open>Documented behaviour of contexts: the context of the supervisor is derived from the main one, so it is
  done once that is cancelled, and a context that is done stays so.\<close>

definition context_laws :: "'w super_ops \<Rightarrow> bool" where
  "context_laws ops \<longleftrightarrow>
     (\<forall>w. sp_Done ops (sp_cancelMain ops w)) \<and> (\<forall>w d. sp_Done ops w \<longrightarrow> sp_Done ops (sp_Sleep ops d w))"

lemma scan_unended: "list_all (\<lambda>st. st = None) sts \<Longrightarrow> scan ops sts check w = (check, w)"
  by (induction ops sts check w rule: scan.induct) auto

lemma scan_done: "context_laws ops \<Longrightarrow> sp_Done ops w \<Longrightarrow> sp_Done ops (snd (scan ops sts check w))"
  by (induction ops sts check w rule: scan.induct) (auto simp: context_laws_def)

lemma scan_False: "fst (scan ops sts False w) = False"
  by (induction sts arbitrary: w) (auto split: option.splits, case_tac a, auto)

lemma scan_ended:
  "context_laws ops \<Longrightarrow> \<not> list_all (\<lambda>st. st = None) sts \<Longrightarrow>
     fst (scan ops sts check w) = False \<and> sp_Done ops (snd (scan ops sts check w))"
proof (induction sts arbitrary: check)
  case (Cons st sts)
  show ?case
  proof (cases st)
    case None
    with Cons show ?thesis by simp
  next
    case (Some x)
    have "sp_Done ops (sp_cancelMain ops w)" using Cons.prems(1) by (simp add: context_laws_def)
    with Some Cons.prems(1) show ?thesis by (simp add: scan_False scan_done)
  qed
qed simp

text \<open>When the supervisor finds that any of its processes has ended, whichever and however, the whole
  program shuts down: the main context is cancelled, and the next turn of the loop waits for the rest and
  reports. Until then it keeps watching, without reporting.\<close>

theorem ended_process_shuts_down:
  assumes "context_laws ops" and "\<not> sp_Done ops w"
  shows "if list_all (\<lambda>st. st = None) (sp_states ops w)
    then watch (Suc n) ops True w = watch n ops True (sp_Sleep ops 1000 w)
    else \<exists>w'. sp_Done ops w' \<and>
      watch (Suc (Suc n)) ops True w = Some (shutdown_error (sp_states ops (sp_Wait ops w')), sp_Wait ops w')"
proof (cases "list_all (\<lambda>st. st = None) (sp_states ops w)")
  case True
  with assms(2) show ?thesis by (simp add: scan_unended)
next
  case False
  obtain check w1 where s: "scan ops (sp_states ops w) True w = (check, w1)" by fastforce
  with scan_ended [OF assms(1) False, of True w] have "check = False" "sp_Done ops w1" by simp_all
  moreover from this have "sp_Done ops (sp_Sleep ops 1000 w1)" using assms(1) by (simp add: context_laws_def)
  ultimately show ?thesis using False assms(2) s by (auto simp: Let_def)
qed

text \<open>A world that knows whether the main context is cancelled; the replica has ended.\<close>

definition replica_down :: "bool super_ops" where
  "replica_down =
     \<lparr>sp_Done = \<lambda>c. c, sp_Wait = \<lambda>c. c,
      sp_states = \<lambda>c. [None, None, Some \<lparr>ps_Exited = False, ps_Success = False, ps_String = ''signal: killed''\<rparr>],
      sp_cancelMain = \<lambda>c. True, sp_Sleep = \<lambda>d c. c\<rparr>"

theorem ended_process_shuts_down_witness:
  "\<exists>w'. sp_Done replica_down w' \<and> watch 2 replica_down True False = Some (None, w')"
proof -
  have "context_laws replica_down" by (simp add: context_laws_def replica_down_def)
  moreover have "\<not> sp_Done replica_down False" by (simp add: replica_down_def)
  ultimately show ?thesis
    using ended_process_shuts_down [of replica_down False 0]
    by (auto simp: replica_down_def shutdown_error_def numeral_2_eq_2 simp del: watch.simps)
qed

end
