(* ===== verification/Log_Pipeline.thy ===== *)
theory Log_Pipeline
  imports Engine_Servers Transitions
begin

text \<open>
  The log of the replica, \<open>StartScannerForBuffer\<close> and \<open>ParseLog\<close> of \<open>src/graphql_engine_servers.go\<close>: the
  output of the process goes through a pipe to a scanner goroutine, which hands line after line over an
  unbuffered channel to the parser goroutine, which prints. Goroutines are interleaved: the model is a
  step relation. A write to the pipe lasts until the scanner has read it, so the lines not yet read are
  the ones the process (and \<open>cmd2.Wait\<close>, which waits for its output) is still waiting to get rid of.
\<close>

text \<open>\<open>bufio.Scanner\<close>: a line is handed on without its final carriage return; a line that does not fit into
  the buffer of 64 KiB with its newline ends the scan.\<close>

definition MaxScanTokenSize :: nat where
  "MaxScanTokenSize = 65536"

definition dropCR :: "string \<Rightarrow> string" where
  "dropCR line = (if line \<noteq> [] \<and> last line = CHR 0x0D then butlast line else line)"

text \<open>\<open>lg_written\<close> are all lines the process has written so far, \<open>lg_unread\<close> those still waiting in the pipe.\<close>

datatype scanner_state = Scanning | Sending string | ScanEnded

record log_state =
  lg_written :: "string list"
  lg_unread :: "string list"
  lg_scanner :: scanner_state
  lg_parsing :: bool
  lg_printed :: "string list"
  lg_cancelled :: bool

text \<open>\<open>scanner.Scan()\<close> reads the next line, or ends the loop.\<close>

definition scan_line :: "log_state \<Rightarrow> string \<Rightarrow> string list \<Rightarrow> log_state" where
  "scan_line s line rest =
     (if length line < MaxScanTokenSize
      then s\<lparr>lg_unread := rest, lg_scanner := Sending (dropCR line)\<rparr>
      else s\<lparr>lg_scanner := ScanEnded\<rparr>)"

text \<open>The rendezvous on the channel. The parser prints the line unless it is the known error; the scanner
  goes on unless the context is cancelled.\<close>

definition hand_over :: "log_state \<Rightarrow> string \<Rightarrow> log_state" where
  "hand_over s line =
     s\<lparr>lg_printed := lg_printed s @ ParseLog [line],
       lg_scanner := (if lg_cancelled s then ScanEnded else Scanning)\<rparr>"

inductive log_step :: "log_state \<Rightarrow> log_state \<Rightarrow> bool" where
  scan_step: "lg_scanner s = Scanning \<Longrightarrow> lg_unread s = line # rest \<Longrightarrow> log_step s (scan_line s line rest)"
| channel_step: "lg_scanner s = Sending line \<Longrightarrow> lg_parsing s \<Longrightarrow> log_step s (hand_over s line)"
| parser_done: "lg_cancelled s \<Longrightarrow> lg_parsing s \<Longrightarrow> log_step s (s\<lparr>lg_parsing := False\<rparr>)"
| ctx_cancel: "log_step s (s\<lparr>lg_cancelled := True\<rparr>)"
| process_writes: "
     log_step s (s\<lparr>lg_written := lg_written s @ lines, lg_unread := lg_unread s @ lines\<rparr>)"

inductive_cases log_stepE: "log_step s s'"

definition log_start :: "log_state \<Rightarrow> bool" where
  "log_start s \<longleftrightarrow>
     lg_written s = lg_unread s \<and> lg_scanner s = Scanning \<and> lg_parsing s \<and> lg_printed s = [] \<and> \<not> lg_cancelled s"

subsection \<open>What is printed\<close>

definition in_flight :: "scanner_state \<Rightarrow> string list" where
  "in_flight sc = (case sc of Sending line \<Rightarrow> [line] | _ \<Rightarrow> [])"

lemma ParseLog_append [simp]: "ParseLog (xs @ ys) = ParseLog xs @ ParseLog ys"
  by (simp add: ParseLog_def)

lemma ParseLog_Nil [simp]: "ParseLog [] = []"
  by (simp add: ParseLog_def)

definition in_order :: "log_state \<Rightarrow> bool" where
  "in_order s \<longleftrightarrow>
     (\<exists>consumed. lg_written s = consumed @ lg_unread s \<and>
        lg_printed s @ ParseLog (in_flight (lg_scanner s)) = ParseLog (map dropCR consumed))"

lemma in_order_step:
  assumes "in_order s" and "log_step s s'"
  shows "in_order s'"
proof -
  obtain consumed where c: "lg_written s = consumed @ lg_unread s"
    "lg_printed s @ ParseLog (in_flight (lg_scanner s)) = ParseLog (map dropCR consumed)"
    using assms(1) by (auto simp: in_order_def)
  from assms(2) show ?thesis
  proof (cases rule: log_step.cases)
    case (scan_step line rest)
    then show ?thesis
      using c by (cases "length line < MaxScanTokenSize")
        (auto simp: in_order_def scan_line_def in_flight_def intro: exI [of _ "consumed @ [line]"])
  qed (use c in \<open>auto simp: in_order_def hand_over_def in_flight_def\<close>)
qed

interpretation lines: invariant log_step in_order log_start
  by unfold_locales (rule in_order_step, assumption+, simp add: log_start_def in_order_def in_flight_def)

text \<open>C22. The log of the replica is printed in order: at every moment the lines printed, followed by the one the
  scanner holds in its hand, are exactly the lines read so far, less those the parser filters out, in the
  order in which they were written; and the lines read are the first ones of those written. Nothing is said
  of the lines not read, which may never be (\<open>log_stalls\<close>), and the last one read may never be printed either.\<close>

theorem log_printed_in_order:
  assumes "reachable log_start log_step s"
  shows "\<exists>consumed. lg_written s = consumed @ lg_unread s \<and>
    lg_printed s @ ParseLog (in_flight (lg_scanner s)) = ParseLog (map dropCR consumed)"
  using lines.inv_reachable [OF assms] by (simp add: in_order_def)

subsection \<open>When nobody reads any more\<close>

text \<open>The scanner has ended, or is stuck in handing a line to a parser that has returned.\<close>

definition stalled :: "log_state \<Rightarrow> bool" where
  "stalled s \<longleftrightarrow> lg_scanner s = ScanEnded \<or> (\<exists>line. lg_scanner s = Sending line) \<and> \<not> lg_parsing s"

definition stays :: "string list \<Rightarrow> string list \<Rightarrow> log_state \<Rightarrow> bool" where
  "stays unread printed s \<longleftrightarrow> stalled s \<and> (\<exists>more. lg_unread s = unread @ more) \<and> lg_printed s = printed"

lemma stays_step: "stays unread printed s \<Longrightarrow> log_step s s' \<Longrightarrow> stays unread printed s'"
  by (erule log_stepE) (auto simp: stays_def stalled_def)

interpretation stall: step_invariant log_step "stays unread printed" for unread printed
  by unfold_locales (rule stays_step)

text \<open>The log of the replica can stall for ever: after a line of 64 KiB or more, and when the context is
  cancelled while a line is on its way, nothing is read from the pipe again, whatever happens. The replica
  then blocks in its next write, and at shutdown the wait for it does not end.\<close>

theorem log_stalls:
  assumes "lg_scanner s = Scanning \<and> lg_unread s = line # rest \<and> MaxScanTokenSize \<le> length line \<and> t = scan_line s line rest
      \<or> lg_scanner s = Sending line \<and> lg_cancelled s \<and> lg_parsing s \<and> t = s\<lparr>lg_parsing := False\<rparr>"
    and "steps log_step t t'"
  shows "log_step s t \<and> (\<exists>more. lg_unread t' = lg_unread s @ more) \<and> lg_printed t' = lg_printed s"
proof -
  have "log_step s t"
    using assms(1) scan_step [of s line rest] parser_done [of s] by auto
  moreover have "stays (lg_unread s) (lg_printed s) t"
    using assms(1) by (auto simp: stays_def stalled_def scan_line_def)
  ultimately show ?thesis
    using stall.inv_steps [OF assms(2)] by (auto simp: stays_def)
qed

subsection \<open>When the log drains\<close>

text \<open>What the two goroutines do by themselves.\<close>

definition reader_step :: "log_state \<Rightarrow> log_state \<Rightarrow> bool" where
  "reader_step s s' \<longleftrightarrow> log_step s s' \<and> s' \<noteq> s \<and> lg_cancelled s' = lg_cancelled s \<and> lg_written s' = lg_written s"

lemma reader_log: "reader_step s s' \<Longrightarrow> log_step s s'"
  by (simp add: reader_step_def)

fun scanner_rank :: "scanner_state \<Rightarrow> nat" where
  "scanner_rank (Sending line) = 2"
| "scanner_rank Scanning = 1"
| "scanner_rank ScanEnded = 0"

definition log_rank :: "log_state \<Rightarrow> nat" where
  "log_rank s = 2 * length (lg_unread s) + scanner_rank (lg_scanner s) + (if lg_parsing s then 1 else 0)"

lemma log_rank_decreases: "reader_step s s' \<Longrightarrow> log_rank s' < log_rank s"
  unfolding reader_step_def by (elim conjE log_stepE) (auto simp: log_rank_def scan_line_def hand_over_def)

lemma reader_moves:
  assumes "\<not> stalled s" and "lg_unread s \<noteq> [] \<or> lg_scanner s \<noteq> Scanning"
  shows "\<exists>s'. reader_step s s'"
proof (cases "lg_scanner s")
  case Scanning
  then obtain line rest where l: "lg_unread s = line # rest" using assms(2) by (cases "lg_unread s") simp_all
  let ?t = "scan_line s line rest"
  have "lg_scanner ?t \<noteq> lg_scanner s" using Scanning by (simp add: scan_line_def)
  then have "?t \<noteq> s" by metis
  with scan_step [OF Scanning l] show ?thesis by (intro exI [of _ ?t]) (simp add: reader_step_def scan_line_def)
next
  case (Sending line)
  then have "lg_parsing s" using assms(1) by (simp add: stalled_def)
  let ?t = "hand_over s line"
  have "lg_scanner ?t \<noteq> lg_scanner s" using Sending by (simp add: hand_over_def)
  then have "?t \<noteq> s" by metis
  with channel_step [OF Sending \<open>lg_parsing s\<close>] show ?thesis
    by (intro exI [of _ ?t]) (simp add: reader_step_def hand_over_def)
next
  case ScanEnded
  with assms(1) show ?thesis by (simp add: stalled_def)
qed

text \<open>The context is not cancelled and no line is too long.\<close>

definition draining :: "string list \<Rightarrow> log_state \<Rightarrow> bool" where
  "draining lines s \<longleftrightarrow>
     in_order s \<and> lg_written s = lines \<and> lg_parsing s \<and> \<not> lg_cancelled s \<and> lg_scanner s \<noteq> ScanEnded \<and>
     list_all (\<lambda>line. length line < MaxScanTokenSize) (lg_unread s)"

lemma draining_step:
  assumes "draining lines s" and "reader_step s s'"
  shows "draining lines s'"
proof -
  have "in_order s'" using in_order_step [OF _ reader_log [OF assms(2)]] assms(1) by (simp add: draining_def)
  then show ?thesis
    using assms unfolding reader_step_def
    by (elim conjE log_stepE) (auto simp: draining_def scan_line_def hand_over_def)
qed

lemma drained:
  assumes "draining lines s" and "\<nexists>s'. reader_step s s'"
  shows "lg_printed s = ParseLog (map dropCR lines)"
proof -
  have "lg_unread s = []" "lg_scanner s = Scanning"
    using reader_moves [of s] assms by (auto simp: draining_def stalled_def)
  then show ?thesis using assms(1) by (auto simp: draining_def in_order_def in_flight_def)
qed

interpretation drain: running_down reader_step "draining lines" log_rank "\<lambda>s. lg_printed s = ParseLog (map dropCR lines)" for lines
  by unfold_locales (auto intro: draining_step log_rank_decreases drained)

text \<open>C23. As long as the context is not cancelled and no line is too long, the log is printed completely: the two
  goroutines by themselves read everything that has been written, and in whatever order they go, when
  they wait for more all the lines have been printed but the known error.\<close>

theorem log_drains:
  assumes "reachable log_start log_step s" and "lg_parsing s" and "\<not> lg_cancelled s" and "lg_scanner s \<noteq> ScanEnded"
    and "list_all (\<lambda>line. length line < MaxScanTokenSize) (lg_unread s)"
  shows "(\<exists>t. steps reader_step s t \<and> lg_printed t = ParseLog (map dropCR (lg_written s))) \<and>
    (\<forall>t. steps reader_step s t \<and> (\<nexists>u. reader_step t u) \<longrightarrow> lg_printed t = ParseLog (map dropCR (lg_written s)))"
proof -
  have "draining (lg_written s) s" using assms lines.inv_reachable [OF assms(1)] by (simp add: draining_def)
  then show ?thesis using drain.goal_reached drain.goal_at_end by blast
qed

subsection \<open>Examples\<close>

definition log_empty :: log_state where
  "log_empty = \<lparr>lg_written = [], lg_unread = [], lg_scanner = Scanning, lg_parsing = True, lg_printed = [], lg_cancelled = False\<rparr>"

definition log_sending :: log_state where
  "log_sending = log_empty\<lparr>lg_written := [''a'', ''b''], lg_unread := [''b''], lg_scanner := Sending ''a''\<rparr>"

lemma log_sending_reachable: "reachable log_start log_step log_sending"
proof -
  let ?s = "log_empty\<lparr>lg_written := [''a'', ''b''], lg_unread := [''a'', ''b'']\<rparr>"
  have "log_step log_empty ?s" using process_writes [of log_empty "[''a'', ''b'']"] by (simp add: log_empty_def)
  moreover have "log_step ?s log_sending"
    using scan_step [of ?s "''a''" "[''b'']"]
    by (simp add: log_empty_def log_sending_def scan_line_def MaxScanTokenSize_def dropCR_def)
  moreover have "reachable log_start log_step log_empty"
    by (rule at_start) (simp add: log_start_def log_empty_def)
  ultimately show ?thesis by (blast intro: after_step)
qed

theorem log_drains_witness:
  "\<exists>t. steps reader_step log_sending t \<and> lg_printed t = [''a'', ''b'']"
  using log_drains [OF log_sending_reachable]
  by (simp add: log_sending_def log_empty_def MaxScanTokenSize_def dropCR_def ParseLog_def)

theorem log_printed_in_order_witness:
  "\<exists>consumed. lg_written log_sending = consumed @ lg_unread log_sending \<and>
     lg_printed log_sending @ ParseLog (in_flight (lg_scanner log_sending)) = ParseLog (map dropCR consumed)"
  by (rule log_printed_in_order [OF log_sending_reachable])

theorem log_stalls_witness:
  "\<exists>more. lg_unread (log_empty\<lparr>lg_cancelled := True, lg_scanner := Sending ''a'', lg_parsing := False, lg_unread := [''b'']\<rparr>) =
     [''b''] @ more"
proof -
  let ?s = "log_empty\<lparr>lg_cancelled := True, lg_scanner := Sending ''a'', lg_unread := [''b'']\<rparr>"
  have "lg_unread (?s\<lparr>lg_parsing := False\<rparr>) = [''b'']" by simp
  with log_stalls [of ?s "''a''" "[]" "?s\<lparr>lg_parsing := False\<rparr>", OF _ steps_refl] show ?thesis
    by (simp add: log_empty_def)
qed

end
