(* ===== verification/Contexts.thy ===== *)
theory Contexts
  imports Prelude Transitions
begin

text \<open>
  Go's \<open>context\<close> package as the program uses it, and \<open>WrapContextCancelByAnotherContext\<close> of
  \<open>src/otel_tracer.go\<close>. The contexts made so far are a list, a context is its position, a child names its
  parent; a context is done once it has been cancelled, its deadline has passed or its parent is done.
  The goroutine that \<open>WrapContextCancelByAnotherContext\<close> starts is a watcher, a pair of contexts it waits
  for. Instants and durations are in nanoseconds.
\<close>

subsection \<open>Contexts\<close>

record ctx_node =
  ctx_parent :: "nat option"
  ctx_deadline :: "int option"
  ctx_cancelled :: bool

type_synonym contexts = "ctx_node list"

function ctx_done :: "contexts \<Rightarrow> int \<Rightarrow> nat \<Rightarrow> bool" where
  "ctx_done cs now c =
     (c < length cs \<and>
        (ctx_cancelled (cs ! c) \<or>
         (case ctx_deadline (cs ! c) of None \<Rightarrow> False | Some t \<Rightarrow> t \<le> now) \<or>
         (case ctx_parent (cs ! c) of None \<Rightarrow> False | Some p \<Rightarrow> if p < c then ctx_done cs now p else False)))"
  by pat_completeness auto
termination
  by (relation "measure (\<lambda>(cs, now, c). c)") auto

declare ctx_done.simps [simp del]

definition Background :: "contexts \<Rightarrow> nat \<times> contexts" where
  "Background cs = (length cs, cs @ [\<lparr>ctx_parent = None, ctx_deadline = None, ctx_cancelled = False\<rparr>])"

definition WithCancel :: "nat \<Rightarrow> contexts \<Rightarrow> nat \<times> contexts" where
  "WithCancel p cs = (length cs, cs @ [\<lparr>ctx_parent = Some p, ctx_deadline = None, ctx_cancelled = False\<rparr>])"

definition WithTimeout :: "nat \<Rightarrow> int \<Rightarrow> int \<Rightarrow> contexts \<Rightarrow> nat \<times> contexts" where
  "WithTimeout p timeout now cs =
     (length cs, cs @ [\<lparr>ctx_parent = Some p, ctx_deadline = Some (now + timeout), ctx_cancelled = False\<rparr>])"

definition cancel_ctx :: "nat \<Rightarrow> contexts \<Rightarrow> contexts" where
  "cancel_ctx c cs = (if c < length cs then cs[c := (cs ! c)\<lparr>ctx_cancelled := True\<rparr>] else cs)"

text \<open>A later list of contexts: more contexts, some of them cancelled meanwhile.\<close>

definition later :: "contexts \<Rightarrow> contexts \<Rightarrow> bool" where
  "later cs cs' \<longleftrightarrow> length cs \<le> length cs' \<and>
     (\<forall>c < length cs. ctx_parent (cs' ! c) = ctx_parent (cs ! c) \<and> ctx_deadline (cs' ! c) = ctx_deadline (cs ! c) \<and>
        (ctx_cancelled (cs ! c) \<longrightarrow> ctx_cancelled (cs' ! c)))"

lemma later_refl: "later cs cs"
  by (simp add: later_def)

lemma later_append: "later cs (cs @ ds)"
  by (simp add: later_def nth_append)

lemma later_cancel: "later cs (cancel_ctx c cs)"
  by (auto simp: later_def cancel_ctx_def nth_list_update)

lemma done_later: "later cs cs' \<Longrightarrow> now \<le> now' \<Longrightarrow> ctx_done cs now c \<Longrightarrow> ctx_done cs' now' c"
proof (induction c rule: less_induct)
  case (less c)
  note IH = less.IH [OF _ less.prems(1,2)]
  from less.prems(3) have c: "c < length cs" by (subst (asm) ctx_done.simps) simp
  with less.prems(1) have same: "c < length cs'" "ctx_parent (cs' ! c) = ctx_parent (cs ! c)"
    "ctx_deadline (cs' ! c) = ctx_deadline (cs ! c)" "ctx_cancelled (cs ! c) \<longrightarrow> ctx_cancelled (cs' ! c)"
    by (auto simp: later_def)
  from less.prems(3) show ?case
    unfolding ctx_done.simps [of cs now c] ctx_done.simps [of cs' now' c]
    using same less.prems(2) IH by (auto split: option.splits if_splits)
qed

lemma done_cancelled: "c < length cs \<Longrightarrow> ctx_done (cancel_ctx c cs) now c"
  by (simp add: ctx_done.simps [of _ now c] cancel_ctx_def)

lemma done_parent: "c < length cs \<Longrightarrow> ctx_parent (cs ! c) = Some p \<Longrightarrow> p < c \<Longrightarrow> ctx_done cs now p \<Longrightarrow> ctx_done cs now c"
  by (simp add: ctx_done.simps [of cs now c])

subsection \<open>\<open>WrapContextCancelByAnotherContext\<close>\<close>

record ctx_state =
  st_contexts :: contexts
  st_now :: int
  st_watchers :: "(nat \<times> nat) list"

definition is_done :: "ctx_state \<Rightarrow> nat \<Rightarrow> bool" where
  "is_done s c = ctx_done (st_contexts s) (st_now s) c"

definition WrapContextCancelByAnotherContext :: "nat \<Rightarrow> nat \<Rightarrow> int \<Rightarrow> ctx_state \<Rightarrow> nat \<times> ctx_state" where
  "WrapContextCancelByAnotherContext mainCtx triggerCtx timeoutDuration s =
     (let (newCtx, cs) =
            (if timeoutDuration > 0
             then WithTimeout mainCtx (int64 (timeoutDuration * 1000000)) (st_now s) (st_contexts s)
             else WithCancel mainCtx (st_contexts s))
      in (newCtx, s\<lparr>st_contexts := cs, st_watchers := st_watchers s @ [(triggerCtx, newCtx)]\<rparr>))"

text \<open>The goroutine: its \<open>select\<close> waits for either of its contexts.\<close>

definition watcher_runs :: "nat \<times> nat \<Rightarrow> ctx_state \<Rightarrow> ctx_state \<Rightarrow> bool" where
  "watcher_runs g s s' \<longleftrightarrow>
     (case g of (triggerCtx, newCtx) \<Rightarrow>
        is_done s triggerCtx \<and>
          s' = s\<lparr>st_contexts := cancel_ctx newCtx (st_contexts s), st_watchers := remove1 g (st_watchers s)\<rparr> \<or>
        is_done s newCtx \<and> s' = s\<lparr>st_watchers := remove1 g (st_watchers s)\<rparr>)"

text \<open>What can happen to the contexts of the program, in any order. \<open>own\<close> are the contexts whose cancel
  function the program calls.\<close>

inductive ctx_step :: "nat set \<Rightarrow> ctx_state \<Rightarrow> ctx_state \<Rightarrow> bool" for own where
  background: "ctx_step own s (s\<lparr>st_contexts := snd (Background (st_contexts s))\<rparr>)"
| with_cancel: "p < length (st_contexts s) \<Longrightarrow> ctx_step own s (s\<lparr>st_contexts := snd (WithCancel p (st_contexts s))\<rparr>)"
| with_timeout: "p < length (st_contexts s) \<Longrightarrow>
     ctx_step own s (s\<lparr>st_contexts := snd (WithTimeout p d (st_now s) (st_contexts s))\<rparr>)"
| wrap: "m < length (st_contexts s) \<Longrightarrow> ctx_step own s (snd (WrapContextCancelByAnotherContext m t d s))"
| cancel: "c \<in> own \<Longrightarrow> ctx_step own s (s\<lparr>st_contexts := cancel_ctx c (st_contexts s)\<rparr>)"
| watcher: "g \<in> set (st_watchers s) \<Longrightarrow> watcher_runs g s s' \<Longrightarrow> ctx_step own s s'"
| time_passes: "st_now s \<le> t \<Longrightarrow> ctx_step own s (s\<lparr>st_now := t\<rparr>)"

lemmas ctx_ops = Background_def WithCancel_def WithTimeout_def WrapContextCancelByAnotherContext_def

lemma step_later: "ctx_step own s s' \<Longrightarrow> later (st_contexts s) (st_contexts s') \<and> st_now s \<le> st_now s'"
  by (induction rule: ctx_step.induct)
    (auto simp: ctx_ops later_refl later_append later_cancel watcher_runs_def Let_def split: prod.splits)

lemma step_done: "ctx_step own s s' \<Longrightarrow> is_done s c \<Longrightarrow> is_done s' c"
  by (auto simp: is_done_def dest: step_later intro: done_later)

subsection \<open>Properties\<close>

lemma wrap_node:
  assumes "WrapContextCancelByAnotherContext m t d s = (new, s1)"
  shows "new = length (st_contexts s)" and "new < length (st_contexts s1)"
    and "ctx_parent (st_contexts s1 ! new) = Some m" and "\<not> ctx_cancelled (st_contexts s1 ! new)"
    and "ctx_deadline (st_contexts s1 ! new) = (if d > 0 then Some (st_now s + int64 (d * 1000000)) else None)"
    and "(t, new) \<in> set (st_watchers s1)" and "st_now s1 = st_now s"
  using assms by (auto simp: ctx_ops Let_def split: if_splits)

definition watched :: "nat \<Rightarrow> nat \<Rightarrow> ctx_state \<Rightarrow> bool" where
  "watched t new s \<longleftrightarrow> new < length (st_contexts s) \<and> ((t, new) \<in> set (st_watchers s) \<or> is_done s new)"

lemma watched_step:
  assumes "watched t new s" and st: "ctx_step own s s'"
  shows "watched t new s'"
proof -
  have len: "new < length (st_contexts s')" using assms step_later [OF st] by (auto simp: watched_def later_def)
  show ?thesis
  proof (cases "is_done s new")
    case True
    with len step_done [OF st] show ?thesis by (simp add: watched_def)
  next
    case False
    then have w: "(t, new) \<in> set (st_watchers s)" using assms(1) by (simp add: watched_def)
    from st show ?thesis
    proof (cases rule: ctx_step.cases)
      case (watcher g)
      then have "g = (t, new) \<Longrightarrow> is_done s' new"
        using False assms(1) by (auto simp: watcher_runs_def watched_def is_done_def intro: done_cancelled)
      moreover have "g \<noteq> (t, new) \<Longrightarrow> (t, new) \<in> set (st_watchers s')"
        using watcher(2) w in_set_remove1 [of "(t, new)" g "st_watchers s"]
        by (auto simp: watcher_runs_def split: prod.splits)
      ultimately show ?thesis using len by (auto simp: watched_def)
    qed (use w len in \<open>auto simp: watched_def ctx_ops Let_def\<close>)
  qed
qed

interpretation watched: step_invariant "ctx_step own" "watched t new" for own t new
  by unfold_locales (rule watched_step)

text \<open>C21. A context made of two others ends with both: whatever happens afterwards, the new context is done
  when the main one is, and when the trigger is done it is done too or its goroutine is there and can
  cancel it in its next step.\<close>

theorem wrapped_context_ends:
  assumes "WrapContextCancelByAnotherContext m t d s = (new, s1)" and "m < length (st_contexts s)"
    and "steps (ctx_step own) s1 s2"
  shows "(if is_done s2 m then is_done s2 new else True) \<and>
    (if is_done s2 t then is_done s2 new \<or> (\<exists>s3. ctx_step own s2 s3 \<and> is_done s3 new) else True)"
proof -
  note n = wrap_node [OF assms(1)]
  have w: "watched t new s2"
    using watched.inv_steps [OF assms(3), of t new] n(2,6) by (simp add: watched_def)
  have "later (st_contexts s1) (st_contexts s2)"
    using assms(3)
    by (induction rule: reachable.induct)
      (auto simp: later_refl dest!: step_later intro: order_trans simp: later_def)
  then have "ctx_parent (st_contexts s2 ! new) = Some m" "new < length (st_contexts s2)"
    using n(2,3) by (auto simp: later_def)
  then have "is_done s2 m \<Longrightarrow> is_done s2 new"
    using done_parent [of new "st_contexts s2" m] assms(2) n(1) by (simp add: is_done_def)
  moreover have "\<exists>s3. ctx_step own s2 s3 \<and> is_done s3 new" if "is_done s2 t" "\<not> is_done s2 new"
  proof (intro exI conjI)
    let ?s3 = "s2\<lparr>st_contexts := cancel_ctx new (st_contexts s2), st_watchers := remove1 (t, new) (st_watchers s2)\<rparr>"
    show "ctx_step own s2 ?s3"
      using w that by (intro watcher [of "(t, new)"]) (auto simp: watched_def watcher_runs_def)
    show "is_done ?s3 new" using w by (simp add: is_done_def watched_def done_cancelled)
  qed
  ultimately show ?thesis by auto
qed

text \<open>A context without a deadline that the program does not cancel itself.\<close>

definition only_inherits :: "nat \<Rightarrow> nat \<Rightarrow> nat \<Rightarrow> ctx_state \<Rightarrow> bool" where
  "only_inherits m t new s \<longleftrightarrow> new < length (st_contexts s) \<and> ctx_parent (st_contexts s ! new) = Some m \<and>
     ctx_deadline (st_contexts s ! new) = None \<and>
     (\<forall>t'. (t', new) \<in> set (st_watchers s) \<longrightarrow> t' = t) \<and> (\<forall>(t', n) \<in> set (st_watchers s). n < length (st_contexts s)) \<and>
     (ctx_cancelled (st_contexts s ! new) \<longrightarrow> is_done s m \<or> is_done s t)"

lemma inherits_done: "only_inherits m t new s \<Longrightarrow> is_done s new \<Longrightarrow> is_done s m \<or> is_done s t"
  by (auto simp: only_inherits_def is_done_def ctx_done.simps [of _ _ new] split: if_splits)

lemma inherits_step:
  assumes "only_inherits m t new s" and "new \<notin> own" and st: "ctx_step own s s'"
  shows "only_inherits m t new s'"
proof -
  note I = assms(1) [unfolded only_inherits_def]
  note mono = step_done [OF st]
  from step_later [OF st] I have l: "new < length (st_contexts s')" "length (st_contexts s) \<le> length (st_contexts s')"
    "ctx_parent (st_contexts s' ! new) = Some m" "ctx_deadline (st_contexts s' ! new) = None"
    by (auto simp: later_def)
  have keep: "ctx_cancelled (st_contexts s' ! new) \<longrightarrow> ctx_cancelled (st_contexts s ! new) \<or> is_done s t \<or> is_done s m"
    using st
  proof (cases rule: ctx_step.cases)
    case (watcher g)
    obtain x y where g: "g = (x, y)" by fastforce
    have "y = new \<Longrightarrow> x = t" using I watcher(1) by (auto simp: g)
    then show ?thesis
      using watcher(2) I by (cases "y = new") (auto simp: g watcher_runs_def cancel_ctx_def split: if_splits)
  qed (use I assms(2) in \<open>auto simp: ctx_ops nth_append cancel_ctx_def nth_list_update Let_def split: if_splits\<close>)
  have ws: "(\<forall>t'. (t', new) \<in> set (st_watchers s') \<longrightarrow> t' = t) \<and> (\<forall>(t', n) \<in> set (st_watchers s'). n < length (st_contexts s'))"
    using st
  proof (cases rule: ctx_step.cases)
    case (watcher g)
    then have "st_watchers s' = remove1 g (st_watchers s)" by (auto simp: watcher_runs_def split: prod.splits)
    then have "set (st_watchers s') \<subseteq> set (st_watchers s)" by (simp add: set_remove1_subset)
    then show ?thesis using I l(2) by fastforce
  qed (use I in \<open>fastforce simp: ctx_ops cancel_ctx_def Let_def split: if_splits\<close>)+
  show ?thesis using l keep ws I mono by (auto simp: only_inherits_def)
qed

text \<open>The contexts of one query request, \<open>src/fiber_graphql_handler.go\<close> and \<open>processProxyResponse\<close> of
  \<open>src/main.go\<close>: the lookup in the cache has a context of 3300 milliseconds whose cancel function runs when
  the handler returns; when the answer is saved, it is under a context whose cancel function is dropped.\<close>

definition query_contexts :: "bool \<Rightarrow> nat \<Rightarrow> nat \<Rightarrow> ctx_state \<Rightarrow> ctx_state" where
  "query_contexts saved userCtx reqCtx s =
     (let (traceCtx, s) = WrapContextCancelByAnotherContext userCtx reqCtx 3300 s;
          s = (if saved then snd (WrapContextCancelByAnotherContext userCtx reqCtx 0 s) else s)
      in s\<lparr>st_contexts := cancel_ctx traceCtx (st_contexts s)\<rparr>)"

text \<open>C27. A request that saved its answer leaves a goroutine behind, for as long as neither its user context nor
  the request context of the server is done: whatever else happens, it stays there, although the request is
  over and the context of its lookup is done. Without tracing the user context is never done, and the
  goroutine stays until the server shuts down; the middleware for tracing ends it with the request.\<close>

theorem save_leaves_goroutine:
  assumes "\<forall>(t, n) \<in> set (st_watchers s). n < length (st_contexts s)"
    and "userCtx < length (st_contexts s)" and "reqCtx < length (st_contexts s)"
    and "Suc (length (st_contexts s)) \<notin> own"
    and "steps (ctx_step own) (query_contexts True userCtx reqCtx s) s2"
    and "\<not> is_done s2 userCtx" and "\<not> is_done s2 reqCtx"
  shows "(reqCtx, Suc (length (st_contexts s))) \<in> set (st_watchers s2) \<and> is_done s2 (length (st_contexts s))"
proof -
  let ?k = "length (st_contexts s)" and ?s1 = "query_contexts True userCtx reqCtx s"
  have node: "only_inherits userCtx reqCtx (Suc ?k) ?s1" and w: "watched reqCtx (Suc ?k) ?s1" and d: "is_done ?s1 ?k"
    using assms(1)
    by (fastforce simp: query_contexts_def ctx_ops only_inherits_def watched_def is_done_def cancel_ctx_def Let_def nth_append
        ctx_done.simps [of _ _ ?k])+
  have "only_inherits userCtx reqCtx (Suc ?k) s2 \<and> watched reqCtx (Suc ?k) s2 \<and> is_done s2 ?k"
    using assms(5)
  proof (induction rule: reachable.induct)
    case (at_start s')
    then show ?case using node w d by simp
  next
    case (after_step s' s'')
    then show ?case using inherits_step [OF _ assms(4)] watched_step step_done by blast
  qed
  with assms(6,7) show ?thesis using inherits_done [of userCtx reqCtx "Suc ?k" s2] by (auto simp: watched_def)
qed

subsection \<open>Examples\<close>

text \<open>The background context as user context, a request context, and no goroutine yet.\<close>

definition two_contexts :: ctx_state where
  "two_contexts = \<lparr>st_contexts = snd (Background (snd (Background []))), st_now = 0, st_watchers = []\<rparr>"

theorem wrapped_context_ends_witness:
  "\<exists>s3. ctx_step {1}
     (snd (WrapContextCancelByAnotherContext 0 1 0 two_contexts)
        \<lparr>st_contexts := cancel_ctx 1 (st_contexts (snd (WrapContextCancelByAnotherContext 0 1 0 two_contexts)))\<rparr>) s3
     \<and> is_done s3 2"
proof -
  let ?w = "WrapContextCancelByAnotherContext 0 1 0 two_contexts"
  let ?s2 = "(snd ?w)\<lparr>st_contexts := cancel_ctx 1 (st_contexts (snd ?w))\<rparr>"
  have w: "?w = (2, snd ?w)" by (simp add: ctx_ops two_contexts_def)
  have "steps (ctx_step {1}) (snd ?w) ?s2" by (rule after_step, rule steps_refl, rule cancel) simp
  from wrapped_context_ends [OF w _ this]
  have "is_done ?s2 1 \<Longrightarrow> is_done ?s2 2 \<or> (\<exists>s3. ctx_step {1} ?s2 s3 \<and> is_done s3 2)"
    by (simp add: ctx_ops two_contexts_def)
  moreover have "is_done ?s2 1 \<and> \<not> is_done ?s2 2"
    by (simp add: is_done_def ctx_ops two_contexts_def cancel_ctx_def ctx_done.simps)
  ultimately show ?thesis by blast
qed

theorem save_leaves_goroutine_witness:
  "(1, 3) \<in> set (st_watchers (query_contexts True 0 1 two_contexts))"
proof -
  let ?s = "query_contexts True 0 1 two_contexts"
  have "\<not> is_done ?s 0" "\<not> is_done ?s 1"
    by (simp_all add: query_contexts_def is_done_def ctx_ops two_contexts_def cancel_ctx_def ctx_done.simps Let_def)
  moreover have "length (st_contexts two_contexts) = 2" "st_watchers two_contexts = []"
    by (simp_all add: two_contexts_def Background_def)
  ultimately show ?thesis
    using save_leaves_goroutine [of two_contexts 0 1 "{}" ?s, OF _ _ _ _ steps_refl] by (simp add: numeral_eq_Suc)
qed

end
