(* ===== verification/App.thy ===== *)
theory App
  imports Service Config Contexts
begin

text \<open>
  The HTTP application that \<open>setupFiber\<close> of \<open>src/main.go\<close> puts together: its settings, its middleware, the
  routes and which of their handlers takes a request, and the requests that arrive while the startup is
  still going on and wait for it in \<open>waitForStartupToBeCompleted\<close>. How Fiber matches a pattern is a
  parameter; requests, startup and time are interleaved by the step relation \<open>app_step\<close>.
\<close>

subsection \<open>Settings\<close>

definition UPSTREAM_TIME_OUT :: int where "UPSTREAM_TIME_OUT = 110 * Second"
definition FIBER_READ_TIME_OUT :: int where "FIBER_READ_TIME_OUT = 30 * Second"
definition FIBER_WRITE_TIME_OUT :: int where "FIBER_WRITE_TIME_OUT = 30 * Second"
definition FIBER_IDLE_TIME_OUT :: int where "FIBER_IDLE_TIME_OUT = 120 * Second"
definition GRACEFUL_SHUTDOWN_TIMEOUT :: int where "GRACEFUL_SHUTDOWN_TIMEOUT = 30 * Second"

record fiber_config =
  ReadTimeout :: int
  WriteTimeout :: int
  IdleTimeout :: int
  ServerHeader :: string
  Prefork :: bool

definition fiber_settings :: fiber_config where
  "fiber_settings =
     \<lparr>ReadTimeout = FIBER_READ_TIME_OUT, WriteTimeout = FIBER_WRITE_TIME_OUT, IdleTimeout = FIBER_IDLE_TIME_OUT,
      ServerHeader = ''graphql-engine-plus/v1.0.0'', Prefork = False\<rparr>"

text \<open>What the application reads of the configuration, here and in its handlers.\<close>

definition engine_config_of :: "'s viper_ops \<Rightarrow> 's \<Rightarrow> engine_config" where
  "engine_config_of viper s =
     \<lparr>cfg_v1_path = v_GetString viper s ENGINE_PLUS_GRAPHQL_V1_PATH,
      cfg_v1_readonly_path = v_GetString viper s ENGINE_PLUS_GRAPHQL_V1_READONLY_PATH,
      cfg_health_path = v_GetString viper s ENGINE_PLUS_HEALTH_CHECK_PATH,
      cfg_meta_path = v_GetString viper s ENGINE_PLUS_META_PATH,
      cfg_scripting_path = v_GetString viper s ENGINE_PLUS_SCRIPTING_PUBLIC_PATH,
      cfg_execute_secret = v_GetString viper s ENGINE_PLUS_EXECUTE_SECRET,
      cfg_allow_execurl = v_GetBool viper s ENGINE_PLUS_ALLOW_EXECURL,
      cfg_weight = v_GetUint64 viper s ENGINE_PLUS_GRAPHQL_PRIMARY_VS_REPLICA_WEIGHT,
      cfg_replica_urls = v_GetString viper s HASURA_GRAPHQL_READ_REPLICA_URLS,
      cfg_max_ttl = v_GetInt viper s HASURA_GRAPHQL_CACHE_MAX_ENTRY_TTL\<rparr>"

subsection \<open>Middleware\<close>

text \<open>The functions that tell the logger and the tracer which requests to skip.\<close>

definition logger_skips :: "engine_config \<Rightarrow> string \<Rightarrow> bool" where
  "logger_skips cfg path = (if path = cfg_health_path cfg \<or> path = ''/health'' then True else False)"

definition otel_skips :: "string \<Rightarrow> string \<Rightarrow> string \<Rightarrow> string \<Rightarrow> bool" where
  "otel_skips rwPath roPath scriptingPublicPath path =
     (if path = rwPath \<or> path = roPath \<or> (scriptingPublicPath \<noteq> [] \<and> path = scriptingPublicPath) then False else True)"

definition exports_traces :: "string \<Rightarrow> bool" where
  "exports_traces engineEnableOtelType \<longleftrightarrow> engineEnableOtelType = ''grpc'' \<or> engineEnableOtelType = ''http''"

datatype log_level = LevelDebug | LevelInfo

datatype middleware = Logger | Cors string | Otel string string string

record fiber_app =
  app_config :: fiber_config
  app_level :: log_level
  app_middleware :: "middleware list"
  app_routes :: "(http_method \<times> string \<times> endpoint) list"

text \<open>\<open>cors_New\<close> says whether the CORS middleware takes its list of origins; it panics when it does not.\<close>

definition setupFiber :: "(string \<Rightarrow> bool) \<Rightarrow> 's viper_ops \<Rightarrow> 's \<Rightarrow> (string, fiber_app) result" where
  "setupFiber cors_New viper s =
     (let cfg = engine_config_of viper s
      in and_then (StripTrailingSlash (cfg_scripting_path cfg)) (\<lambda>scriptingPublicPath.
           if \<not> cors_New (v_GetString viper s HASURA_GRAPHQL_CORS_DOMAIN) then Panic LibraryPanic
           else map_result (\<lambda>routes.
             \<lparr>app_config = fiber_settings,
              app_level = (if v_GetBool viper s DEBUG_MODE then LevelDebug else LevelInfo),
              app_middleware =
                [Logger, Cors (v_GetString viper s HASURA_GRAPHQL_CORS_DOMAIN)] @
                (if exports_traces (v_GetString viper s ENGINE_PLUS_ENABLE_OPEN_TELEMETRY)
                 then [Otel (cfg_v1_path cfg) (cfg_v1_readonly_path cfg) scriptingPublicPath] else []),
              app_routes = routes\<rparr>) (setup_routes cfg)))"

subsection \<open>Which handler takes a request\<close>

record web_request =
  rq_method :: string
  rq_path :: string
  rq_ctx :: fiber_ctx

text \<open>\<open>matches m pattern rq\<close> is Fiber's matching of a route: the value of the parameter \<open>+\<close>, empty when the
  pattern has none, or \<open>None\<close>. The first route registered that matches takes the request, since no handler
  hands it on.\<close>

type_synonym matching = "http_method \<Rightarrow> string \<Rightarrow> web_request \<Rightarrow> string option"

fun dispatch ::
  "matching \<Rightarrow> (http_method \<times> string \<times> endpoint) list \<Rightarrow> web_request \<Rightarrow> (endpoint \<times> fiber_ctx) option" where
  "dispatch matches [] rq = None"
| "dispatch matches ((m, pattern, e) # routes) rq =
     (case matches m pattern rq of
        Some rest \<Rightarrow> Some (e, rq_ctx rq\<lparr>ctx_params_plus := rest\<rparr>)
      | None \<Rightarrow> dispatch matches routes rq)"

text \<open>Documented behaviour: a parameter \<open>+\<close> at the end of a pattern takes one character or more behind what the
  rest of the pattern matches.\<close>

definition plus_law :: "matching \<Rightarrow> bool" where
  "plus_law matches \<longleftrightarrow>
     (\<forall>m p rq rest. matches m (p @ ''+'') rq = Some rest \<longrightarrow>
        rest \<noteq> [] \<and> length p + length rest \<le> length (rq_path rq))"

definition run_endpoint ::
  "'w server_env \<Rightarrow> endpoint \<Rightarrow> startup_context \<Rightarrow> startup_context \<Rightarrow> fiber_ctx \<Rightarrow> 'w \<Rightarrow> 'w outcome" where
  "run_endpoint env e startupCtx startupReadonlyCtx c w =
     (case e of
        HealthCheck \<Rightarrow> health_check_handler env startupCtx startupReadonlyCtx c w
      | Health \<Rightarrow> health_handler startupCtx w
      | ReadWrite \<Rightarrow> rw_handler env startupReadonlyCtx c w
      | ReadOnly \<Rightarrow> ro_handler env startupReadonlyCtx c w
      | Meta \<Rightarrow> meta_handler env c w
      | Scripting \<Rightarrow> scripting_handler env c w)"

lemma dispatch_route:
  assumes "dispatch matches routes rq = Some (e, c)"
  shows "\<exists>m p rest. (m, p, e) \<in> set routes \<and> matches m p rq = Some rest \<and> c = rq_ctx rq\<lparr>ctx_params_plus := rest\<rparr>"
  using assms
proof (induction routes)
  case (Cons route routes)
  obtain m p e' where "route = (m, p, e')" by (cases route)
  with Cons show ?case by (cases "matches m p rq") auto
qed simp

lemma setupFiber_routes:
  assumes "setupFiber cors_New viper s = Ok app"
  shows "setup_routes (engine_config_of viper s) = Ok (app_routes app)"
  using assms by (auto simp: setupFiber_def Let_def go_simps split: if_splits)

lemma scripting_route:
  assumes "setup_routes cfg = Ok routes" and "(m, p, Scripting) \<in> set routes"
  shows "\<exists>path. StripTrailingSlash (cfg_scripting_path cfg) = Ok path \<and> p = path @ ''+''"
  using assms by (auto simp: setup_routes_def go_simps split: if_splits)

subsection \<open>What each route can reach\<close>

lemma sent_to_proxy: "fst (snd (forward_with_proxy env url c w)) \<in> {[ProxyDo url], [ProxyDo url, RespHeaderDel ''Server'']}"
  by (simp add: forward_with_proxy_def split: prod.split option.split)

lemma scripting_sends:
  "scripting_handler env c w = (r, es, w') \<Longrightarrow>
     sent_to es = [] \<or> sent_to es = [ScriptingServer] \<and> ctx_execute_secret c = cfg_execute_secret (env_cfg env) \<and>
       ctx_execute_secret c \<noteq> [] \<and> (cfg_allow_execurl (env_cfg env) \<or> ctx_execute_url c = [])"
  by (auto simp: scripting_handler_def process_uncached Let_def split: if_splits prod.splits)

text \<open>The URLs of the proxy client in a trace of effects.\<close>

definition proxied_to :: "effect list \<Rightarrow> string list" where
  "proxied_to es = concat (map (\<lambda>e. case e of ProxyDo url \<Rightarrow> [url] | _ \<Rightarrow> []) es)"

lemma proxied_to_simps [simp]:
  "proxied_to [] = []" "proxied_to (e # es) = (case e of ProxyDo url \<Rightarrow> [url] | _ \<Rightarrow> []) @ proxied_to es"
  "proxied_to (es @ fs) = proxied_to es @ proxied_to fs"
  by (simp_all add: proxied_to_def)

lemma proxied_to_prepare [simp]: "proxied_to (prepareProxyRequest h p ip) = []"
  by (simp add: prepareProxyRequest_def)

lemma proxied_to_save: "ReadResponseBodyAndSaveToCache ops cl m resp ttl f k w = (es, w') \<Longrightarrow> proxied_to es = []"
  by (auto simp: ReadResponseBodyAndSaveToCache_def Let_def split: sum.splits prod.splits option.splits)

lemma proxied_to_process: "processProxyResponse env resp cl ttl f k w = (es, w') \<Longrightarrow> proxied_to es = []"
  by (auto simp: processProxyResponse_def Let_def dest: proxied_to_save split: option.splits prod.splits if_splits)

lemma proxied_to_cached: "SendCachedResponseBody um now tp d f k = (r, es) \<Longrightarrow> proxied_to es = []"
  by (auto simp: SendCachedResponseBody_def Let_def split: result.splits prod.splits if_splits sum.splits)

lemma scripting_proxies: "scripting_handler env c w = (r, es, w') \<Longrightarrow> proxied_to es = []"
  by (auto simp: scripting_handler_def process_uncached Let_def split: if_splits prod.splits)

lemma query_proxies: "graphqlQueryHandler env ro c req w = (r, es, w') \<Longrightarrow> proxied_to es = []"
  by (auto simp: graphqlQueryHandler_def forward_query_def Let_def
      dest: proxied_to_cached proxied_to_process split: prod.splits result.splits option.splits)

lemma mutation_proxies: "graphqlMutationHandler env c req w = (r, es, w') \<Longrightarrow> proxied_to es = []"
  by (auto simp: graphqlMutationHandler_def process_uncached Let_def split: prod.splits)

lemma graphql_policy:
  assumes "h = rw_handler \<or> h = ro_handler" and "h env ro c w = (r, es, w')"
  shows "proxied_to es = [] \<and> (sent_to es = [] \<or> sent_to es = [PrimaryEngine] \<or>
    sent_to es = [ReplicaEngine] \<and> cfg_replica_urls (env_cfg env) \<noteq> [] \<and> ro \<noteq> Running)"
  using handler_outcomes [OF assms(1), of env ro c w]
proof (elim disjE exE conjE)
  fix req
  assume "h env ro c w = graphqlQueryHandler env ro c req w"
  with assms(2) have "graphqlQueryHandler env ro c req w = (r, es, w')" by simp
  then show ?thesis
    using query_sends_one [of env ro c req w] query_proxies [of env ro c req w r es w'] by (auto simp: Let_def)
next
  fix req
  assume "h env ro c w = graphqlMutationHandler env c req w"
  with assms(2) have "graphqlMutationHandler env c req w = (r, es, w')" by simp
  then show ?thesis
    using mutation_sends [of env c req w] mutation_proxies [of env c req w r es w'] by auto
qed (use assms(2) in auto)

text \<open>C17. Who can be reached through which route: the replica only through the two GraphQL endpoints and only
  when there is one, the scripting server only through the public scripting route with the configured
  secret, the URLs of the proxy client only through the health check, which has two fixed ones on the
  scripting server, and the metadata route. No request reaches more than one server.\<close>

theorem service_policy:
  assumes "run_endpoint env e st ro c w = (r, es, w')"
  shows "length (sent_to es) + length (proxied_to es) \<le> 1 \<and>
    list_all (\<lambda>u. case u of
        PrimaryEngine \<Rightarrow> e = ReadWrite \<or> e = ReadOnly
      | ReplicaEngine \<Rightarrow> (e = ReadWrite \<or> e = ReadOnly) \<and> cfg_replica_urls (env_cfg env) \<noteq> [] \<and> ro \<noteq> Running
      | ScriptingServer \<Rightarrow> e = Scripting \<and> ctx_execute_secret c \<noteq> [] \<and>
          ctx_execute_secret c = cfg_execute_secret (env_cfg env)) (sent_to es) \<and>
    list_all (\<lambda>url. e = HealthCheck \<and> st \<noteq> Running \<and> (\<exists>q. url = ''http://localhost:8880/health/engine?quite=true'' @ q) \<or>
      e = Meta \<and> url = ''http://localhost:8881'' @ ctx_params_plus c) (proxied_to es)"
proof (cases e)
  case Scripting
  with assms have s: "scripting_handler env c w = (r, es, w')" by (simp add: run_endpoint_def)
  with Scripting scripting_sends [OF s] scripting_proxies [OF s] show ?thesis by auto
next
  case HealthCheck
  with assms show ?thesis
    by (cases st; cases ro)
      (auto simp: run_endpoint_def health_check_handler_def forward_with_proxy_def startup_Err_def
        split: prod.splits option.splits)
qed (use assms graphql_policy [of rw_handler env ro c w r es w'] graphql_policy [of ro_handler env ro c w r es w']
  in \<open>auto simp: run_endpoint_def health_handler_def meta_handler_def forward_with_proxy_def
    split: prod.splits option.splits if_splits\<close>)

text \<open>Requests for the scripting server are not traced: the tracer compares the path of the request with the
  public path alone, but the route takes only longer paths. The exception is a request whose path is one of
  the GraphQL paths.\<close>

theorem scripting_never_traced:
  assumes "plus_law matches" and "setupFiber cors_New viper s = Ok app"
    and "dispatch matches (app_routes app) rq = Some (Scripting, c)"
  shows "list_all (\<lambda>m. case m of
      Otel rwPath roPath public \<Rightarrow>
        otel_skips rwPath roPath public (rq_path rq) \<or> rq_path rq = rwPath \<or> rq_path rq = roPath
    | _ \<Rightarrow> True) (app_middleware app)"
proof -
  let ?cfg = "engine_config_of viper s"
  obtain m p rest where r: "(m, p, Scripting) \<in> set (app_routes app)" "matches m p rq = Some rest"
    using dispatch_route [OF assms(3)] by blast
  then obtain path where path: "StripTrailingSlash (cfg_scripting_path ?cfg) = Ok path" "p = path @ ''+''"
    using scripting_route [OF setupFiber_routes [OF assms(2)]] by blast
  then have "rest \<noteq> []" "length path + length rest \<le> length (rq_path rq)"
    using r(2) assms(1) by (auto simp: plus_law_def)
  then have "rq_path rq \<noteq> path" by (cases rest) auto
  then show ?thesis
    using assms(2) path(1) by (auto simp: setupFiber_def Let_def go_simps otel_skips_def split: if_splits)
qed

subsection \<open>Where the metadata route leads\<close>

text \<open>The host of a URL \<open>http://\<close>\<dots>, by RFC 3986: the authority ends at the first slash, question mark or hash,
  and the host follows the last at sign in it.\<close>

definition url_authority :: "string \<Rightarrow> string" where
  "url_authority url = takeWhile (\<lambda>c. c \<notin> {CHR ''/'', CHR ''?'', CHR ''#''}) (drop (length ''http://'') url)"

definition url_host :: "string \<Rightarrow> string" where
  "url_host url = rev (takeWhile (\<lambda>c. c \<noteq> CHR ''@'') (rev (url_authority url)))"

lemma authority_of:
  assumes "\<forall>c \<in> set a. c \<notin> {CHR ''/'', CHR ''?'', CHR ''#''}"
  shows "url_authority (''http://'' @ a @ t) = a @ takeWhile (\<lambda>c. c \<notin> {CHR ''/'', CHR ''?'', CHR ''#''}) t"
  using assms by (simp add: url_authority_def takeWhile_append2)

text \<open>C26. The metadata route trusts the rest of the path: it is put right behind the port of the primary engine.
  With a slash first the request goes to the primary engine; with an at sign first it goes to any host the
  client names, the address of the engine being taken for credentials.\<close>

theorem meta_route_leaves_localhost:
  assumes "list_all (\<lambda>c. c \<notin> {CHR ''/'', CHR ''?'', CHR ''#'', CHR ''@''}) host"
  shows "map url_host (proxied_to (fst (snd (meta_handler env (c\<lparr>ctx_params_plus := ''/'' @ t\<rparr>) w)))) = [''localhost:8881''] \<and>
    map url_host (proxied_to (fst (snd (meta_handler env (c\<lparr>ctx_params_plus := ''@'' @ host @ ''/'' @ t\<rparr>) w)))) = [host]"
proof -
  have url: "proxied_to (fst (snd (meta_handler env c w))) = [''http://localhost:8881'' @ ctx_params_plus c]" for c
    by (simp add: meta_handler_def forward_with_proxy_def split: prod.split option.split)
  have "url_authority (''http://'' @ ''localhost:8881'' @ ''/'' @ t) = ''localhost:8881''"
    by (subst authority_of) auto
  moreover have "url_authority (''http://'' @ (''localhost:8881@'' @ host) @ ''/'' @ t) = ''localhost:8881@'' @ host"
    using assms by (subst authority_of) (auto simp: list_all_iff)
  moreover have "takeWhile (\<lambda>c. c \<noteq> CHR ''@'') (rev host @ CHR ''@'' # xs) = rev host" for xs
    using assms by (subst takeWhile_append2) (auto simp: list_all_iff)
  ultimately show ?thesis unfolding url by (simp add: url_host_def)
qed

subsection \<open>Requests during the startup\<close>

text \<open>\<open>waitForStartupToBeCompleted\<close> returns at once when the startup context is done, and otherwise waits until
  it is: whether it can return in a state.\<close>

definition waitForStartupToBeCompleted :: "ctx_state \<Rightarrow> nat \<Rightarrow> bool" where
  "waitForStartupToBeCompleted s startupCtx = is_done s startupCtx"

text \<open>Whether the handler calls it. The scripting handler answers some requests before it would.\<close>

definition must_wait :: "'w server_env \<Rightarrow> endpoint \<Rightarrow> fiber_ctx \<Rightarrow> bool" where
  "must_wait env e c =
     (case e of
        HealthCheck \<Rightarrow> False
      | Health \<Rightarrow> False
      | Scripting \<Rightarrow>
          ctx_execute_secret c \<noteq> [] \<and> ctx_execute_secret c = cfg_execute_secret (env_cfg env) \<and>
          (cfg_allow_execurl (env_cfg env) \<or> ctx_execute_url c = [])
      | _ \<Rightarrow> True)"

text \<open>\<open>ap_waiting\<close> are the requests blocked in it, \<open>ap_answered\<close> the ones answered so far with what their handlers
  did.\<close>

type_synonym answered = "endpoint \<times> fiber_ctx \<times> (http_error, unit) result \<times> effect list"

record 'w app_state =
  ap_ctxs :: ctx_state
  ap_world :: 'w
  ap_waiting :: "(endpoint \<times> fiber_ctx) list"
  ap_answered :: "answered list"

text \<open>What a handler sees of a startup context.\<close>

definition sees :: "ctx_state \<Rightarrow> nat \<Rightarrow> startup_context \<Rightarrow> bool" where
  "sees s ctx st \<longleftrightarrow> (startup_Err st \<noteq> None \<longleftrightarrow> is_done s ctx)"

definition handles ::
  "'w server_env \<Rightarrow> nat \<Rightarrow> nat \<Rightarrow> endpoint \<times> fiber_ctx \<Rightarrow> 'w app_state \<Rightarrow> answered \<Rightarrow> 'w \<Rightarrow> bool" where
  "handles env startup readonly rq s a w' \<longleftrightarrow>
     (\<exists>st ro r es. sees (ap_ctxs s) startup st \<and> sees (ap_ctxs s) readonly ro \<and>
        run_endpoint env (fst rq) st ro (snd rq) (ap_world s) = (r, es, w') \<and> a = (fst rq, snd rq, r, es))"

inductive app_step ::
  "'w server_env \<Rightarrow> (web_request \<Rightarrow> (endpoint \<times> fiber_ctx) option) \<Rightarrow> nat \<Rightarrow> nat \<Rightarrow> nat set \<Rightarrow> 'w app_state \<Rightarrow> 'w app_state \<Rightarrow> bool"
  for env route startup readonly own where
  blocks: "route rq = Some (e, c) \<Longrightarrow> must_wait env e c \<Longrightarrow> \<not> waitForStartupToBeCompleted (ap_ctxs s) startup \<Longrightarrow>
     app_step env route startup readonly own s (s\<lparr>ap_waiting := ap_waiting s @ [(e, c)]\<rparr>)"
| answers: "route rq = Some (e, c) \<Longrightarrow> must_wait env e c \<longrightarrow> waitForStartupToBeCompleted (ap_ctxs s) startup \<Longrightarrow>
     handles env startup readonly (e, c) s a w' \<Longrightarrow>
     app_step env route startup readonly own s (s\<lparr>ap_world := w', ap_answered := a # ap_answered s\<rparr>)"
| resumes: "x \<in> set (ap_waiting s) \<Longrightarrow> waitForStartupToBeCompleted (ap_ctxs s) startup \<Longrightarrow>
     handles env startup readonly x s a w' \<Longrightarrow>
     app_step env route startup readonly own s
       (s\<lparr>ap_world := w', ap_waiting := remove1 x (ap_waiting s), ap_answered := a # ap_answered s\<rparr>)"
| contexts: "ctx_step own (ap_ctxs s) cs \<Longrightarrow> app_step env route startup readonly own s (s\<lparr>ap_ctxs := cs\<rparr>)"
| world: "app_step env route startup readonly own s (s\<lparr>ap_world := w'\<rparr>)"

definition app_start :: "'w app_state \<Rightarrow> bool" where
  "app_start s \<longleftrightarrow> ap_waiting s = [] \<and> ap_answered s = []"

text \<open>An answer that can be given before the startup is over: nothing is sent anywhere, and the client gets
  status 503 from a health check or an error from the scripting endpoint.\<close>

definition early_answer :: "answered \<Rightarrow> bool" where
  "early_answer a =
     (case a of (e, c, r, es) \<Rightarrow>
        (e = HealthCheck \<or> e = Health) \<and> r = Ok () \<and> es = [SendStatus 503] \<or>
        e = Scripting \<and> (\<exists>code \<in> {401, 403}. \<exists>msg. r = Err (FiberError code msg)) \<and> es = [])"

definition gated :: "nat \<Rightarrow> 'w app_state \<Rightarrow> bool" where
  "gated startup s \<longleftrightarrow> is_done (ap_ctxs s) startup \<or> list_all early_answer (ap_answered s)"

lemma early_handles:
  assumes "handles env startup readonly (e, c) s a w'" and "\<not> is_done (ap_ctxs s) startup" and "\<not> must_wait env e c"
  shows "early_answer a"
proof -
  obtain st ro r es where st: "sees (ap_ctxs s) startup st"
    and run: "run_endpoint env e st ro c (ap_world s) = (r, es, w')" and a: "a = (e, c, r, es)"
    using assms(1) by (auto simp: handles_def)
  have "startup_Err st = None" using st assms(2) by (simp add: sees_def)
  then show ?thesis
    using run assms(3)
    by (auto simp: run_endpoint_def a early_answer_def must_wait_def health_check_handler_def health_handler_def
        scripting_handler_def split: endpoint.splits if_splits)
qed

lemma gated_step: "gated startup s \<Longrightarrow> app_step env route startup readonly own s s' \<Longrightarrow> gated startup s'"
proof (erule app_step.cases, goal_cases)
  case (4 t cs)
  then show ?case using step_done [of own "ap_ctxs s" cs startup] by (auto simp: gated_def)
qed (auto simp: gated_def waitForStartupToBeCompleted_def dest: early_handles)

interpretation gate: invariant "app_step env route startup readonly own" "gated startup" app_start
  for env route startup readonly own
  by unfold_locales (rule gated_step, assumption+, simp add: gated_def app_start_def)

text \<open>C6. While the startup is going on no request reaches an engine or any other server: every answer given so
  far is a 503 of a health check or a refusal of the scripting endpoint. Once the startup is over, because
  it was completed or because its deadline has passed, every request that waits can go on.\<close>

theorem startup_gate:
  assumes "reachable app_start (app_step env route startup readonly own) s"
  shows "if is_done (ap_ctxs s) startup
    then list_all (\<lambda>x. \<exists>a s'. app_step env route startup readonly own s s' \<and>
      ap_waiting s' = remove1 x (ap_waiting s) \<and> ap_answered s' = a # ap_answered s) (ap_waiting s)
    else list_all early_answer (ap_answered s)"
proof (cases "is_done (ap_ctxs s) startup")
  case True
  have "\<exists>a s'. app_step env route startup readonly own s s' \<and>
      ap_waiting s' = remove1 x (ap_waiting s) \<and> ap_answered s' = a # ap_answered s" if "x \<in> set (ap_waiting s)" for x
  proof -
    have sees: "sees (ap_ctxs s) ctx (if is_done (ap_ctxs s) ctx then Cancelled else Running)" for ctx
      by (simp add: sees_def startup_Err_def)
    obtain r es w' where "run_endpoint env (fst x) (if is_done (ap_ctxs s) startup then Cancelled else Running)
        (if is_done (ap_ctxs s) readonly then Cancelled else Running) (snd x) (ap_world s) = (r, es, w')"
      by (metis prod_cases3)
    then have "handles env startup readonly x s (fst x, snd x, r, es) w'"
      using sees unfolding handles_def by blast
    from resumes [OF that _ this] True show ?thesis by (fastforce simp: waitForStartupToBeCompleted_def)
  qed
  with True show ?thesis by (simp add: list_all_iff)
next
  case False
  with gate.inv_reachable [OF assms] show ?thesis by (simp add: gated_def)
qed

subsection \<open>Examples\<close>

text \<open>Matching by prefix, a configuration with traces and a public scripting path, and a request for it.\<close>

definition prefix_match :: matching where
  "prefix_match m p rq =
     (if last p = CHR ''+''
      then (if take (length p - 1) (rq_path rq) = butlast p \<and> length p \<le> length (rq_path rq)
            then Some (drop (length p - 1) (rq_path rq)) else None)
      else if p = rq_path rq then Some [] else None)"

definition traced_config :: "string \<rightharpoonup> cfg_value" where
  "traced_config =
     [ENGINE_PLUS_GRAPHQL_V1_PATH \<mapsto> CStr ''/v1'', ENGINE_PLUS_GRAPHQL_V1_READONLY_PATH \<mapsto> CStr ''/v1ro'',
      ENGINE_PLUS_HEALTH_CHECK_PATH \<mapsto> CStr ''/hc'', ENGINE_PLUS_META_PATH \<mapsto> CStr ''/meta'',
      ENGINE_PLUS_SCRIPTING_PUBLIC_PATH \<mapsto> CStr ''/x/'', ENGINE_PLUS_ENABLE_OPEN_TELEMETRY \<mapsto> CStr ''http'']"

definition scripting_request :: web_request where
  "scripting_request = \<lparr>rq_method = ''POST'', rq_path = ''/x/run'', rq_ctx = sim_ctx\<rparr>"

theorem scripting_never_traced_witness:
  "\<exists>app. setupFiber (\<lambda>_. True) map_viper traced_config = Ok app \<and> Otel ''/v1'' ''/v1ro'' ''/x'' \<in> set (app_middleware app) \<and>
     otel_skips ''/v1'' ''/v1ro'' ''/x'' (rq_path scripting_request)"
proof -
  have law: "plus_law prefix_match" by (auto simp: plus_law_def prefix_match_def split: if_splits)
  obtain app where app: "setupFiber (\<lambda>_. True) map_viper traced_config = Ok app"
    and m: "Otel ''/v1'' ''/v1ro'' ''/x'' \<in> set (app_middleware app)"
    and d: "dispatch prefix_match (app_routes app) scripting_request = Some (Scripting, sim_ctx\<lparr>ctx_params_plus := ''/run''\<rparr>)"
    by (simp add: setupFiber_def engine_config_of_def map_viper_def traced_config_def config_keys StripTrailingSlash_cases
        setup_routes_def exports_traces_def prefix_match_def scripting_request_def)
  have "list_all (\<lambda>m. case m of Otel rw ro public \<Rightarrow> otel_skips rw ro public (rq_path scripting_request) \<or>
      rq_path scripting_request = rw \<or> rq_path scripting_request = ro | _ \<Rightarrow> True) (app_middleware app)"
    by (rule scripting_never_traced [OF law app d])
  with app m show ?thesis by (auto simp: list_all_iff scripting_request_def)
qed

theorem service_policy_witness:
  "\<exists>r es w'. run_endpoint (sim_env sim_query) Scripting Cancelled Cancelled sim_ctx sim_init = (r, es, w') \<and>
     length (sent_to es) + length (proxied_to es) \<le> 1"
proof -
  obtain r es w' where run: "run_endpoint (sim_env sim_query) Scripting Cancelled Cancelled sim_ctx sim_init = (r, es, w')"
    by (metis prod_cases3)
  from service_policy [OF run] run show ?thesis by blast
qed

theorem meta_route_leaves_localhost_witness:
  "map url_host (proxied_to (fst (snd (meta_handler (sim_env sim_query)
     (sim_ctx\<lparr>ctx_params_plus := ''@'' @ ''evil.example'' @ ''/'' @ ''v1''\<rparr>) sim_init)))) = [''evil.example'']"
  by (rule meta_route_leaves_localhost [THEN conjunct2]) simp

text \<open>The background context is context 0, the startup context 1, with a minute; a query arrives at once.\<close>

definition starting :: "sim app_state" where
  "starting =
     \<lparr>ap_ctxs = \<lparr>st_contexts = snd (WithTimeout 0 (60 * Second) 0 (snd (Background []))), st_now = 0, st_watchers = []\<rparr>,
      ap_world = sim_init, ap_waiting = [], ap_answered = []\<rparr>"

theorem startup_gate_witness:
  "\<exists>s. ap_waiting s = [(ReadWrite, sim_ctx)] \<and> is_done (ap_ctxs s) 1 \<and>
     (\<exists>a s'. app_step (sim_env sim_query) (\<lambda>rq. Some (ReadWrite, rq_ctx rq)) 1 1 {} s s' \<and>
        ap_waiting s' = [] \<and> ap_answered s' = [a])"
proof -
  let ?step = "app_step (sim_env sim_query) (\<lambda>rq. Some (ReadWrite, rq_ctx rq)) 1 1 {}"
  let ?s1 = "starting\<lparr>ap_waiting := [(ReadWrite, sim_ctx)]\<rparr>"
  let ?s2 = "?s1\<lparr>ap_ctxs := (ap_ctxs ?s1)\<lparr>st_now := 60 * Second\<rparr>\<rparr>"
  have d: "\<not> is_done (ap_ctxs starting) 1" "is_done (ap_ctxs ?s2) 1"
    by (simp_all add: starting_def is_done_def ctx_done.simps ctx_ops Second_def)
  have "?step starting (starting\<lparr>ap_waiting := ap_waiting starting @ [(ReadWrite, sim_ctx)]\<rparr>)"
    by (rule blocks [where rq = "\<lparr>rq_method = [], rq_path = [], rq_ctx = sim_ctx\<rparr>"])
      (use d(1) in \<open>simp_all add: must_wait_def waitForStartupToBeCompleted_def\<close>)
  then have "?step starting ?s1" by (simp add: starting_def)
  moreover have "?step ?s1 ?s2"
    by (rule contexts, rule time_passes) (simp add: starting_def Second_def)
  moreover have "reachable app_start ?step starting" by (rule at_start) (simp add: app_start_def starting_def)
  ultimately have "reachable app_start ?step ?s2" by (blast intro: after_step)
  from startup_gate [OF this] d(2) show ?thesis by (intro exI [of _ ?s2]) (simp add: starting_def)
qed

end
