(* ===== verification/Tracing.thy ===== *)
theory Tracing
  imports Prelude
begin

text \<open>
  \<open>src/otel_tracer.go\<close> but for \<open>WrapContextCancelByAnotherContext\<close>, which is in \<open>Contexts\<close>: the choice of the
  exporter in \<open>InitTracerProvider\<close>, and \<open>FastHttpHeaderCarrier\<close>, through which the trace context gets into the
  headers of a request. The exporters of OpenTelemetry and the headers of fasthttp are parameters.
\<close>

subsection \<open>\<open>InitTracerProvider\<close>\<close>

text \<open>A provider that has been shut down before anything was registered with it makes no spans; the other kind
  samples everything and sends it in batches to its exporter.\<close>

datatype 'x provider = NoopProvider | BatchProvider 'x

text \<open>The globals of the package \<open>otel\<close> that the function sets, and what it logs.\<close>

record 'x otel_globals =
  global_provider :: "'x provider option"
  global_propagator :: bool

datatype otel_log = UnknownExporter string | ExporterError string

record ('x, 'w) exporters =
  otlptracehttp_New :: "'w \<Rightarrow> (string + 'x) \<times> 'w"
  otlptracegrpc_New :: "'w \<Rightarrow> (string + 'x) \<times> 'w"

definition InitTracerProvider ::
  "('x, 'w) exporters \<Rightarrow> string \<Rightarrow> 'x otel_globals \<Rightarrow> 'w \<Rightarrow> 'x provider \<times> otel_log list \<times> 'x otel_globals \<times> 'w" where
  "InitTracerProvider ex otelTracerType g w =
     (let started = (\<lambda>(r, w). case r of
             Inl err \<Rightarrow> (NoopProvider, [ExporterError err], g, w)
           | Inr exporter \<Rightarrow>
               (let tp = BatchProvider exporter
                in (tp, [], g\<lparr>global_provider := Some tp, global_propagator := True\<rparr>, w)))
      in if otelTracerType = ''http'' then started (otlptracehttp_New ex w)
         else if otelTracerType = ''grpc'' then started (otlptracegrpc_New ex w)
         else (NoopProvider,
               (if otelTracerType \<noteq> [] \<and> otelTracerType \<noteq> ''false'' then [UnknownExporter otelTracerType] else []),
               g, w))"

text \<open>Spans are exported exactly when the type names an exporter that could be made, and then the globals are
  set to it, so that the tracer and the propagator that \<open>main\<close> asks for afterwards are the real ones; in
  every other case the globals stay as they were, and anything but an unset type or \<open>false\<close> is logged.\<close>

lemma InitTracerProvider_cases:
  assumes "InitTracerProvider ex t g w = (tp, logs, g', w')"
  shows "(\<exists>x. tp = BatchProvider x \<and> (t = ''http'' \<and> otlptracehttp_New ex w = (Inr x, w') \<or>
        t = ''grpc'' \<and> otlptracegrpc_New ex w = (Inr x, w')) \<and>
        logs = [] \<and> global_provider g' = Some tp \<and> global_propagator g') \<or>
    tp = NoopProvider \<and> g' = g \<and> (logs = [] \<longrightarrow> t = [] \<or> t = ''false'')"
  using assms
  by (auto simp: InitTracerProvider_def Let_def split: if_splits sum.splits prod.splits)

subsection \<open>\<open>FastHttpHeaderCarrier\<close>\<close>

record 'h request_headers =
  rh_Peek :: "string \<Rightarrow> 'h \<Rightarrow> bytes option"
  rh_Set :: "string \<Rightarrow> string \<Rightarrow> 'h \<Rightarrow> 'h"
  rh_PeekKeys :: "'h \<Rightarrow> bytes list"

definition Carrier_Get :: "'h request_headers \<Rightarrow> 'h \<Rightarrow> string \<Rightarrow> string" where
  "Carrier_Get ops h key = (case rh_Peek ops key h of None \<Rightarrow> [] | Some v \<Rightarrow> v)"

definition Carrier_Set :: "'h request_headers \<Rightarrow> string \<Rightarrow> string \<Rightarrow> 'h \<Rightarrow> 'h" where
  "Carrier_Set ops key value h = rh_Set ops key value h"

definition Carrier_Keys :: "'h request_headers \<Rightarrow> 'h \<Rightarrow> string list" where
  "Carrier_Keys ops h = foldl (\<lambda>keys key. keys @ [key]) [] (rh_PeekKeys ops h)"

text \<open>Documented behaviour: \<open>norm\<close> is the normalisation of header names, under which a set header is found and
  listed, and the others stay as they were.\<close>

definition header_laws :: "'h request_headers \<Rightarrow> (string \<Rightarrow> string) \<Rightarrow> bool" where
  "header_laws ops norm \<longleftrightarrow>
     (\<forall>k v h k'. rh_Peek ops k' (rh_Set ops k v h) = (if norm k' = norm k then Some v else rh_Peek ops k' h)) \<and>
     (\<forall>k v h. set (rh_PeekKeys ops (rh_Set ops k v h)) = insert (norm k) (set (rh_PeekKeys ops h)))"

text \<open>A propagator injects its fields one after the other. Each of them can be extracted again, if no two of them
  have the same normalised name.\<close>

definition inject :: "'h request_headers \<Rightarrow> (string \<times> string) list \<Rightarrow> 'h \<Rightarrow> 'h" where
  "inject ops kvs h = foldl (\<lambda>h (k, v). Carrier_Set ops k v h) h kvs"

lemma Carrier_Keys_eq: "Carrier_Keys ops h = rh_PeekKeys ops h"
proof -
  have "foldl (\<lambda>keys key. keys @ [key]) xs ys = xs @ ys" for xs ys :: "string list"
    by (induction ys arbitrary: xs) auto
  then show ?thesis by (simp add: Carrier_Keys_def)
qed

lemma inject_others:
  assumes "header_laws ops norm"
  shows "norm k \<notin> (norm \<circ> fst) ` set kvs \<Longrightarrow> Carrier_Get ops (inject ops kvs h) k = Carrier_Get ops h k"
  using assms
  by (induction kvs arbitrary: h) (auto simp: inject_def Carrier_Get_def Carrier_Set_def header_laws_def)

lemma inject_keys:
  assumes "header_laws ops norm"
  shows "set (Carrier_Keys ops (inject ops kvs h)) = (norm \<circ> fst) ` set kvs \<union> set (Carrier_Keys ops h)"
  using assms
  by (induction kvs arbitrary: h) (auto simp: inject_def Carrier_Keys_eq Carrier_Set_def header_laws_def)

text \<open>What is injected into the headers of a request through the carrier comes out of it again: with
  different normalised names every field is read back with its value, every name is among the keys, and the
  other headers keep their values.\<close>

theorem inject_extract:
  assumes "header_laws ops norm" and "distinct (map (norm \<circ> fst) kvs)"
  shows "list_all (\<lambda>(k, v). Carrier_Get ops (inject ops kvs h) k = v) kvs \<and>
    set (Carrier_Keys ops (inject ops kvs h)) = (norm \<circ> fst) ` set kvs \<union> set (Carrier_Keys ops h) \<and>
    (norm k \<notin> (norm \<circ> fst) ` set kvs \<longrightarrow> Carrier_Get ops (inject ops kvs h) k = Carrier_Get ops h k)"
proof -
  have "list_all (\<lambda>(k, v). Carrier_Get ops (inject ops kvs h) k = v) kvs"
    using assms(2)
  proof (induction kvs arbitrary: h)
    case (Cons f kvs)
    obtain a b where f: "f = (a, b)" by fastforce
    with Cons.prems have "norm a \<notin> (norm \<circ> fst) ` set kvs" by auto
    then have "Carrier_Get ops (inject ops kvs (Carrier_Set ops a b h)) a = b"
      using assms(1) inject_others [OF assms(1)] by (simp add: Carrier_Get_def Carrier_Set_def header_laws_def)
    moreover have "list_all (\<lambda>(k, v). Carrier_Get ops (inject ops kvs (Carrier_Set ops a b h)) k = v) kvs"
      by (rule Cons.IH) (use Cons.prems in simp)
    ultimately show ?case by (simp add: f inject_def)
  qed simp
  then show ?thesis using inject_keys [OF assms(1)] inject_others [OF assms(1)] by blast
qed

text \<open>Headers as an association list whose names are taken as they are.\<close>

definition plain_headers :: "(string \<times> string) list request_headers" where
  "plain_headers = \<lparr>rh_Peek = \<lambda>k h. map_of h k, rh_Set = \<lambda>k v h. (k, v) # h, rh_PeekKeys = map fst\<rparr>"

theorem inject_extract_witness:
  "Carrier_Get plain_headers (inject plain_headers [(''traceparent'', ''00-1''), (''baggage'', ''a=b'')] [(''Host'', ''h'')])
     ''traceparent'' = ''00-1''"
proof -
  have "header_laws plain_headers id" by (auto simp: header_laws_def plain_headers_def)
  from inject_extract [OF this, of "[(''traceparent'', ''00-1''), (''baggage'', ''a=b'')]" "[(''Host'', ''h'')]"]
  show ?thesis by simp
qed

end
