(* ===== verification/Jwt.thy ===== *)
theory Jwt
  imports CacheKey
begin

text \<open>
  \<open>ParseJwt\<close> of \<open>src/jwt_auth.go\<close>, the verifying counterpart of \<open>ParseWithoutVerifyJwt\<close>, next to which it is
  defined. The program does not call it yet. The package \<open>jwt\<close> is a parameter.
\<close>

record jwt_token =
  tok_alg :: string
  tok_claims :: "claims option"

text \<open>The key is handed over as a string, not as bytes.\<close>

datatype verify_key = StringKey string | BytesKey bytes

definition jwt_keyfunc :: "JwtAuthParser \<Rightarrow> jwt_token \<Rightarrow> string + verify_key" where
  "jwt_keyfunc cfg token =
     (if tok_alg token \<noteq> jwt_type cfg then Inl (''unexpected signing method: '' @ tok_alg token)
      else Inr (StringKey (jwt_key cfg)))"

text \<open>\<open>jwt.Parse\<close> answers with a token, which is nil for a text it cannot take apart, and an error. The claims
  are read whatever the error.\<close>

type_synonym jwt_Parse = "bytes \<Rightarrow> (jwt_token \<Rightarrow> string + verify_key) \<Rightarrow> jwt_token option \<times> string option"

definition ParseJwt :: "jwt_Parse \<Rightarrow> JwtAuthParser \<Rightarrow> bytes \<Rightarrow> (string, claims) result" where
  "ParseJwt parse cfg tokenString =
     (case parse tokenString (jwt_keyfunc cfg) of
        (None, err) \<Rightarrow> Panic NilDereference
      | (Some token, err) \<Rightarrow>
          (case tok_claims token of
             Some claims \<Rightarrow> Ok claims
           | None \<Rightarrow> (case err of None \<Rightarrow> Ok [] | Some e \<Rightarrow> Err e)))"

text \<open>Documented behaviour: \<open>Parse\<close> takes the text apart as \<open>ParseUnverified\<close> does, and verifies afterwards; its
  token has the claims that one finds, and is nil when the text has not three parts, which \<open>ParseUnverified\<close>
  refuses as well.\<close>

definition parse_laws :: "jwt_Parse \<Rightarrow> (bytes \<Rightarrow> string + claims option) \<Rightarrow> bool" where
  "parse_laws parse parse_unverified \<longleftrightarrow>
     (\<forall>s kf. case parse_unverified s of
        Inr claims \<Rightarrow> \<exists>token. fst (parse s kf) = Some token \<and> tok_claims token = claims
      | Inl e \<Rightarrow> length (filter (\<lambda>c. c = CHR ''.'') s) \<noteq> 2 \<longrightarrow> fst (parse s kf) = None)"

text \<open>\<open>ParseJwt\<close> verifies nothing: for every token whose claims can be read it answers the same as
  \<open>ParseWithoutVerifyJwt\<close>, whatever the signature, the algorithm, the key and the expiry; and a text that is
  not of three parts, which that one refuses, panics.\<close>

theorem parse_jwt_verifies_nothing:
  assumes "parse_laws parse parse_unverified"
  shows "(case parse_unverified s of
      Inr (Some claims) \<Rightarrow> ParseJwt parse cfg s = ParseWithoutVerifyJwt parse_unverified s \<and> ParseJwt parse cfg s = Ok claims
    | Inr None \<Rightarrow> True
    | Inl e \<Rightarrow> ParseWithoutVerifyJwt parse_unverified s = Err e \<and>
        (if length (filter (\<lambda>c. c = CHR ''.'') s) \<noteq> 2 then ParseJwt parse cfg s = Panic NilDereference else True))"
proof -
  obtain t err where p: "parse s (jwt_keyfunc cfg) = (t, err)" by fastforce
  have "case parse_unverified s of
        Inr claims \<Rightarrow> \<exists>token. fst (parse s (jwt_keyfunc cfg)) = Some token \<and> tok_claims token = claims
      | Inl e \<Rightarrow> length (filter (\<lambda>c. c = CHR ''.'') s) \<noteq> 2 \<longrightarrow> fst (parse s (jwt_keyfunc cfg)) = None"
    using assms by (simp only: parse_laws_def)
  then show ?thesis by (auto simp: p ParseJwt_def ParseWithoutVerifyJwt_def split: sum.splits option.splits)
qed

text \<open>A package that finds one claim in every text of three parts and never accepts a signature.\<close>

definition never_verifies :: jwt_Parse where
  "never_verifies s kf =
     (if length (filter (\<lambda>c. c = CHR ''.'') s) = 2
      then (Some \<lparr>tok_alg = ''none'', tok_claims = Some [(''sub'', GStr ''admin'')]\<rparr>, Some ''signature is invalid'')
      else (None, Some ''token is malformed''))"

definition reads_claims :: "bytes \<Rightarrow> string + claims option" where
  "reads_claims s =
     (if length (filter (\<lambda>c. c = CHR ''.'') s) = 2 then Inr (Some [(''sub'', GStr ''admin'')]) else Inl ''token is malformed'')"

theorem parse_jwt_verifies_nothing_witness:
  "ParseJwt never_verifies \<lparr>jwt_type = ''HS256'', jwt_key = ''k'', jwt_header = \<lparr>header_type = []\<rparr>\<rparr> ''a.b.c'' =
     Ok [(''sub'', GStr ''admin'')]"
proof -
  have law: "parse_laws never_verifies reads_claims" by (simp add: parse_laws_def never_verifies_def reads_claims_def)
  have r: "reads_claims ''a.b.c'' = Inr (Some [(''sub'', GStr ''admin'')])" by (simp add: reads_claims_def)
  show ?thesis
    by (rule parse_jwt_verifies_nothing [OF law, of "''a.b.c''", unfolded r sum.case option.case, THEN conjunct2])
qed

end
