(* ===== verification/Lifecycle.thy ===== *)
theory Lifecycle
  imports App Tracing Local_Address Engine_Servers
begin

text \<open>
  \<open>main\<close> of \<open>src/main.go\<close>: the contexts it makes, what it sets up and in which order, the clean-up operations
  it registers, and the supervisor of \<open>src/graphql_engine_servers.go\<close> put together from its phases, whose
  report the shutdown waits for. The program as it runs is in \<open>Shutdown\<close>. Instants
  and durations are in nanoseconds, but for the ones of \<open>startup_ops\<close>, which are in milliseconds.
\<close>

subsection \<open>The contexts of \<open>main\<close>\<close>

record main_ctxs =
  mc_main :: nat
  mc_startup :: nat
  mc_readonly :: nat

definition main_contexts :: "ctx_state \<Rightarrow> main_ctxs \<times> ctx_state" where
  "main_contexts s =
     (let (background, cs) = Background (st_contexts s);
          (mainCtx, cs) = WithCancel background cs;
          (startupCtx, cs) = WithTimeout mainCtx (60 * Second) (st_now s) cs;
          (startupReadonlyCtx, cs) = WithTimeout mainCtx (180 * Second) (st_now s) cs
      in (\<lparr>mc_main = mainCtx, mc_startup = startupCtx, mc_readonly = startupReadonlyCtx\<rparr>, s\<lparr>st_contexts := cs\<rparr>))"

definition start_server_context :: "main_ctxs \<Rightarrow> ctx_state \<Rightarrow> nat \<times> ctx_state" where
  "start_server_context m s =
     (let (startServerCtx, cs) = WithCancel (mc_main m) (st_contexts s) in (startServerCtx, s\<lparr>st_contexts := cs\<rparr>))"

text \<open>The program starts without any context.\<close>

definition program_start :: "int \<Rightarrow> ctx_state" where
  "program_start now = \<lparr>st_contexts = [], st_now = now, st_watchers = []\<rparr>"

lemma main_contexts_eq:
  "main_contexts (program_start now) =
     (\<lparr>mc_main = 1, mc_startup = 2, mc_readonly = 3\<rparr>,
      \<lparr>st_contexts =
         [\<lparr>ctx_parent = None, ctx_deadline = None, ctx_cancelled = False\<rparr>,
          \<lparr>ctx_parent = Some 0, ctx_deadline = None, ctx_cancelled = False\<rparr>,
          \<lparr>ctx_parent = Some 1, ctx_deadline = Some (now + 60 * Second), ctx_cancelled = False\<rparr>,
          \<lparr>ctx_parent = Some 1, ctx_deadline = Some (now + 180 * Second), ctx_cancelled = False\<rparr>],
       st_now = now, st_watchers = []\<rparr>)"
  by (simp add: main_contexts_def program_start_def ctx_ops)

subsection \<open>Setting up\<close>

definition redis_cfg_of :: "'s viper_ops \<Rightarrow> 's \<Rightarrow> redis_cfg" where
  "redis_cfg_of viper s =
     \<lparr>cfg_redis_url = v_GetString viper s HASURA_GRAPHQL_REDIS_URL,
      cfg_redis_cluster_url = v_GetString viper s HASURA_GRAPHQL_REDIS_CLUSTER_URL,
      cfg_redis_reader_url = v_GetString viper s HASURA_GRAPHQL_REDIS_READER_URL,
      cfg_cluster_mode = v_GetString viper s ENGINE_PLUS_GROUPCACHE_CLUSTER_MODE,
      cfg_groupcache_port = v_GetString viper s ENGINE_PLUS_GROUPCACHE_PORT\<rparr>"

text \<open>The options of groupcache: the defaults, with the wait time and the size from the configuration.\<close>

definition groupcache_options :: "'s viper_ops \<Rightarrow> 's \<Rightarrow> bool \<Rightarrow> GroupcacheOptions" where
  "groupcache_options viper s disabled =
     NewGroupCacheOptions\<lparr>opt_waitETA := v_GetUint64 viper s ENGINE_PLUS_GROUPCACHE_WAIT_ETA,
       opt_cacheMaxSize := v_GetInt64 viper s ENGINE_PLUS_GROUPCACHE_MAX_SIZE, opt_disableAutoDiscovery := disabled\<rparr>"

text \<open>The clean-up operations, by name: stop the engine servers and wait for the report, shut the HTTP server
  down within a time, close the cache clients without their groupcache server, shut the tracer down.\<close>

datatype cleanup_op = StopEngineServers | ShutdownHttp int | CloseCacheClients bool | ShutdownTracer

definition cleanUpOps :: "'o new_client option \<Rightarrow> string \<Rightarrow> (string \<times> cleanup_op) list" where
  "cleanUpOps redisCacheClient engineEnableOtelType =
     [(''engine-servers'', StopEngineServers),
      (''http-server'', ShutdownHttp (GRACEFUL_SHUTDOWN_TIMEOUT - 1 * Second))] @
     (if redisCacheClient \<noteq> None then [(''cache-clients'', CloseCacheClients False)] else []) @
     (if exports_traces engineEnableOtelType then [(''opentelemetry-tracer'', ShutdownTracer)] else [])"

text \<open>What \<open>main\<close> uses of other packages.\<close>

record ('s, 'x, 'o, 'w) main_env =
  me_viper :: "'s viper_ops"
  me_exporters :: "('x, 'w) exporters"
  me_net :: net_env
  me_regexp_Compile :: "string \<Rightarrow> rx option"
  me_cors_New :: "string \<Rightarrow> bool"
  me_ParseClusterURL :: "string \<Rightarrow> string + cluster_options"
  me_ParseURL :: "string \<Rightarrow> string + 'o"
  me_nodes :: "'w node_ops"
  me_ping :: "'o redis_conn \<Rightarrow> 'w \<Rightarrow> string option \<times> 'w"

record ('x, 'o) program =
  pg_contexts :: main_ctxs
  pg_provider :: "'x provider"
  pg_client :: "'o new_client option"
  pg_app :: fiber_app
  pg_address :: string
  pg_cleanup :: "(string \<times> cleanup_op) list"

text \<open>\<open>main\<close> up to the goroutines, and the operations it registers after starting them.\<close>

definition main_setup ::
  "('s, 'x, 'o, 'w) main_env \<Rightarrow> 's \<Rightarrow> 'x otel_globals \<Rightarrow> cluster_options list \<Rightarrow> ctx_state \<Rightarrow> 'w \<Rightarrow>
     (string, ('x, 'o) program \<times> 'x otel_globals \<times> ctx_state \<times> 'w) result" where
  "main_setup me s g heap cs w =
     and_then (InitConfig (me_viper me) (SetupViper (me_viper me) s)) (\<lambda>s.
       let (ctxs, cs) = main_contexts cs;
           engineEnableOtelType = v_GetString (me_viper me) s ENGINE_PLUS_ENABLE_OPEN_TELEMETRY;
           (otelTracerProvider, logs, g, w) = InitTracerProvider (me_exporters me) engineEnableOtelType g w
       in and_then (setupRedisClient (me_net me) (me_regexp_Compile me) (me_ParseClusterURL me) (me_ParseURL me) (me_nodes me) (me_ping me)
                      (redis_cfg_of (me_viper me) s) heap w) (\<lambda>(redisCacheClient, w).
          map_result (\<lambda>app.
            (\<lparr>pg_contexts = ctxs, pg_provider = otelTracerProvider, pg_client = redisCacheClient, pg_app = app,
              pg_address = v_GetString (me_viper me) s ENGINE_PLUS_SERVER_HOST @ '':'' @
                v_GetString (me_viper me) s ENGINE_PLUS_SERVER_PORT,
              pg_cleanup = cleanUpOps redisCacheClient engineEnableOtelType\<rparr>, g, cs, w))
            (setupFiber (me_cors_New me) (me_viper me) s)))"

subsection \<open>The supervisor\<close>

text \<open>The phases of \<open>StartGraphqlEngineServers\<close>: starting the processes, waiting for the scripting server and the
  primary engine to be ready (the replica is waited for in a goroutine of its own), and watching. The
  result is the code the program exits with when a process cannot be started, or the one error value sent
  to the shutdown channel.\<close>

datatype supervisor_end = Exits nat | Reports "string option"

definition StartGraphqlEngineServers ::
  "nat \<Rightarrow> nat \<Rightarrow> (command \<Rightarrow> 'w \<Rightarrow> string option \<times> 'w) \<Rightarrow> 'w startup_ops \<Rightarrow> 'w super_ops \<Rightarrow> command list \<Rightarrow> 'w \<Rightarrow>
     (supervisor_end \<times> 'w) option" where
  "StartGraphqlEngineServers n m start su sp cmds w =
     (case start_commands start cmds w of
        (OsExit code, w) \<Rightarrow> Some (Exits code, w)
      | (Started, w) \<Rightarrow>
          (case wait_startup n su engine_health_url w of
             None \<Rightarrow> None
           | Some (ready, w) \<Rightarrow> map_option (\<lambda>(err, w). (Reports err, w)) (watch m sp True w)))"

subsection \<open>The clients of the processes\<close>

text \<open>The addresses of the three clients of fasthttp: the ports of the engines, and the Unix socket of the
  scripting server.\<close>

datatype dial_address = Tcp string | UnixSocket string

definition client_address :: "upstream \<Rightarrow> dial_address" where
  "client_address u =
     (case u of
        PrimaryEngine \<Rightarrow> Tcp ''localhost:8881''
      | ReplicaEngine \<Rightarrow> Tcp ''localhost:8882''
      | ScriptingServer \<Rightarrow> UnixSocket ''/tmp/scripting.sock'')"

text \<open>Every client dials what the command of its process is told to listen at, and the hosts in the requests and in
  the URLs of the health checks are those processes too.\<close>

theorem clients_reach_processes:
  "(\<exists>args p. cmd_args primary_command = args @ [''--server-port'', p] \<and>
      client_address PrimaryEngine = Tcp (''localhost:'' @ p) \<and> upstream_host PrimaryEngine = ''localhost:'' @ p) \<and>
   (\<exists>args p. cmd_args (replica_command environ m d urls) = args @ [''--server-port'', p] \<and>
      client_address ReplicaEngine = Tcp (''localhost:'' @ p) \<and> upstream_host ReplicaEngine = ''localhost:'' @ p \<and>
      replica_health_url = ''http://localhost:'' @ p @ ''/healthz'') \<and>
   (\<exists>args sock p rest. cmd_args scripting_command = args @ [''--path'', sock, ''--port'', p] \<and>
      client_address ScriptingServer = UnixSocket sock \<and> upstream_host ScriptingServer = ''localhost:'' @ p \<and>
      engine_health_url = ''http://localhost:'' @ p @ ''/health/engine'' @ rest)"
  by (simp add: primary_command_def replica_command_def scripting_command_def client_address_def upstream_host_def
      replica_health_url_def engine_health_url_def Let_def)

subsection \<open>What can keep the program from starting\<close>

text \<open>Documented behaviour: a default is a default for its own key only, among the keys of the program.\<close>

definition default_law :: "'s viper_ops \<Rightarrow> bool" where
  "default_law ops \<longleftrightarrow> (\<forall>k \<in> set own_keys. \<forall>k' \<in> set own_keys. \<forall>v s. k \<noteq> k' \<longrightarrow>
     v_GetString ops (v_SetDefault ops k v s) k' = v_GetString ops s k')"

lemma defaults_keep:
  assumes "default_law ops"
  shows "k \<in> set own_keys \<Longrightarrow> fst ` set kvs \<subseteq> set own_keys \<Longrightarrow> k \<notin> fst ` set kvs \<Longrightarrow> v_GetString ops (foldl (\<lambda>s (k, v). v_SetDefault ops k v s) s kvs) k = v_GetString ops s k"
  using assms by (induction kvs arbitrary: s) (auto simp: default_law_def)

lemma InitConfig_keeps_scripting_path:
  assumes "viper_laws ops" and "default_law ops" and "InitConfig ops s = Ok s'"
  shows "v_GetString ops s' ENGINE_PLUS_SCRIPTING_PUBLIC_PATH = v_GetString ops s ENGINE_PLUS_SCRIPTING_PUBLIC_PATH"
proof -
  let ?k = ENGINE_PLUS_SCRIPTING_PUBLIC_PATH and ?s = "foldl (\<lambda>s (k, v). v_SetDefault ops k v s) s config_defaults"
  have "?k \<notin> fst ` set config_defaults" by (simp add: config_defaults_def config_keys)
  then have d: "v_GetString ops ?s ?k = v_GetString ops s ?k"
    by (intro defaults_keep [OF assms(2) own_key(3)]) (simp_all add: config_defaults_def own_keys_def)
  have ne: "ENGINE_PLUS_META_PATH \<noteq> ?k" "ENGINE_PLUS_GROUPCACHE_WAIT_ETA \<noteq> ?k" by (simp_all add: config_keys)
  from assms(3) obtain t where t: "strip_meta_path ops ?s = Ok t" and s': "s' = limit_wait_eta ops t"
    by (auto simp: InitConfig_def Let_def go_simps)
  from t have "t = ?s \<or> (\<exists>p. t = v_Set ops ENGINE_PLUS_META_PATH p ?s)"
    by (auto simp: strip_meta_path_def Let_def go_simps split: if_splits)
  then have "v_GetString ops t ?k = v_GetString ops ?s ?k" using ne(1) by (auto simp: viper_lawsD(3) [OF assms(1) own_key(1,3)])
  moreover have "v_GetString ops s' ?k = v_GetString ops t ?k"
    using ne(2) by (simp add: s' limit_wait_eta_def viper_lawsD(3) [OF assms(1) own_key(2,3)])
  ultimately show ?thesis using d by simp
qed

lemma strip_meta_path_cases:
  "strip_meta_path ops s =
     (let path = v_GetString ops s ENGINE_PLUS_META_PATH
      in if path = [] then Panic IndexOutOfRange
         else Ok (if last path = CHR ''/'' then v_Set ops ENGINE_PLUS_META_PATH (CStr (butlast path)) s else s))"
  by (auto simp: strip_meta_path_def Let_def index_def [of "[]"] index_last slice_to_butlast)

lemma InitConfig_Panic:
  "(\<exists>p. InitConfig ops s = Panic p) \<longleftrightarrow>
     v_GetString ops (foldl (\<lambda>s (k, v). v_SetDefault ops k v s) s config_defaults) ENGINE_PLUS_META_PATH = []"
  by (simp add: InitConfig_def strip_meta_path_cases Let_def)

lemma InitConfig_not_Err: "InitConfig ops s \<noteq> Err e"
  by (simp add: InitConfig_def strip_meta_path_cases Let_def)

lemma setupRedisClient_not_Err: "setupRedisClient net rc pc pu ops ping cfg heap w \<noteq> Err e"
  by (auto simp: setupRedisClient_def split: prod.splits result.splits option.splits)

lemma setupFiber_outcome:
  "\<exists>app. setupFiber cors_New viper s =
     (if v_GetString viper s ENGINE_PLUS_SCRIPTING_PUBLIC_PATH = [] then Panic SliceOutOfRange
      else if \<not> cors_New (v_GetString viper s HASURA_GRAPHQL_CORS_DOMAIN) then Panic LibraryPanic
      else Ok app)"
  by (simp add: setupFiber_def setup_routes_def engine_config_of_def StripTrailingSlash_cases Let_def)

text \<open>Setting up, once the configuration is there.\<close>

lemma main_setup_eq:
  assumes "InitConfig (me_viper me) (SetupViper (me_viper me) s) = Ok s'"
    and "InitTracerProvider (me_exporters me) (v_GetString (me_viper me) s' ENGINE_PLUS_ENABLE_OPEN_TELEMETRY) g w = (tp, logs, g', w')"
  shows "main_setup me s g heap cs w =
    and_then (setupRedisClient (me_net me) (me_regexp_Compile me) (me_ParseClusterURL me) (me_ParseURL me) (me_nodes me) (me_ping me)
        (redis_cfg_of (me_viper me) s') heap w') (\<lambda>(cl, w'').
      map_result (\<lambda>app.
        (\<lparr>pg_contexts = fst (main_contexts cs), pg_provider = tp, pg_client = cl, pg_app = app,
          pg_address = v_GetString (me_viper me) s' ENGINE_PLUS_SERVER_HOST @ '':'' @
            v_GetString (me_viper me) s' ENGINE_PLUS_SERVER_PORT,
          pg_cleanup = cleanUpOps cl (v_GetString (me_viper me) s' ENGINE_PLUS_ENABLE_OPEN_TELEMETRY)\<rparr>,
         g', snd (main_contexts cs), w'')) (setupFiber (me_cors_New me) (me_viper me) s'))"
  using assms by (simp add: main_setup_def Let_def split: prod.split)

text \<open>C28. What keeps the program from starting: setting up panics exactly when the path of the metadata endpoint is
  empty, when no public path of the scripting server is configured, although that is documented as optional
  and has no default, when setting up the cache client panics, or when the CORS middleware does not take the
  configured domain. No other configuration does, and nothing is returned as an error.\<close>

theorem main_panics_iff:
  assumes "viper_laws (me_viper me)" and "default_law (me_viper me)"
    and "s0 = SetupViper (me_viper me) s"
  shows "((\<exists>p. main_setup me s g heap cs w = Panic p) \<longleftrightarrow>
     v_GetString (me_viper me) s0 ENGINE_PLUS_SCRIPTING_PUBLIC_PATH = [] \<or>
     v_GetString (me_viper me) (foldl (\<lambda>s (k, v). v_SetDefault (me_viper me) k v s) s0 config_defaults) ENGINE_PLUS_META_PATH = [] \<or>
     (\<exists>s'. InitConfig (me_viper me) s0 = Ok s' \<and>
        (\<not> me_cors_New me (v_GetString (me_viper me) s' HASURA_GRAPHQL_CORS_DOMAIN) \<or>
         (\<exists>w' p. w' = snd (snd (snd (InitTracerProvider (me_exporters me) (v_GetString (me_viper me) s' ENGINE_PLUS_ENABLE_OPEN_TELEMETRY) g w))) \<and>
            setupRedisClient (me_net me) (me_regexp_Compile me) (me_ParseClusterURL me) (me_ParseURL me) (me_nodes me) (me_ping me)
              (redis_cfg_of (me_viper me) s') heap w' = Panic p)))) \<and>
    (\<nexists>e. main_setup me s g heap cs w = Err e)"
proof (cases "InitConfig (me_viper me) s0")
  case (Err e)
  then show ?thesis by (simp add: InitConfig_not_Err)
next
  case (Panic p)
  then show ?thesis using InitConfig_Panic [of "me_viper me" s0] by (simp add: main_setup_def assms(3))
next
  case (Ok s')
  let ?v = "me_viper me"
  obtain tp logs g' w' where i: "InitTracerProvider (me_exporters me) (v_GetString ?v s' ENGINE_PLUS_ENABLE_OPEN_TELEMETRY) g w =
      (tp, logs, g', w')" by (metis prod_cases4)
  let ?r = "setupRedisClient (me_net me) (me_regexp_Compile me) (me_ParseClusterURL me) (me_ParseURL me) (me_nodes me) (me_ping me)
    (redis_cfg_of ?v s') heap w'"
  have path: "v_GetString ?v s' ENGINE_PLUS_SCRIPTING_PUBLIC_PATH = v_GetString ?v s0 ENGINE_PLUS_SCRIPTING_PUBLIC_PATH"
    by (rule InitConfig_keeps_scripting_path [OF assms(1,2) Ok])
  have meta: "v_GetString ?v (foldl (\<lambda>s (k, v). v_SetDefault ?v k v s) s0 config_defaults) ENGINE_PLUS_META_PATH \<noteq> []"
    using InitConfig_Panic [of ?v s0] Ok by auto
  obtain app where app: "setupFiber (me_cors_New me) ?v s' =
      (if v_GetString ?v s0 ENGINE_PLUS_SCRIPTING_PUBLIC_PATH = [] then Panic SliceOutOfRange
       else if \<not> me_cors_New me (v_GetString ?v s' HASURA_GRAPHQL_CORS_DOMAIN) then Panic LibraryPanic else Ok app)"
    using setupFiber_outcome [of "me_cors_New me" ?v s'] by (auto simp: path)
  have "main_setup me s g heap cs w = and_then ?r (\<lambda>(cl, w''). map_result (\<lambda>app.
      (\<lparr>pg_contexts = fst (main_contexts cs), pg_provider = tp, pg_client = cl, pg_app = app,
        pg_address = v_GetString ?v s' ENGINE_PLUS_SERVER_HOST @ '':'' @ v_GetString ?v s' ENGINE_PLUS_SERVER_PORT,
        pg_cleanup = cleanUpOps cl (v_GetString ?v s' ENGINE_PLUS_ENABLE_OPEN_TELEMETRY)\<rparr>,
       g', snd (main_contexts cs), w'')) (setupFiber (me_cors_New me) ?v s'))"
    using main_setup_eq [OF _ i] Ok by (simp add: assms(3))
  then show ?thesis
    using Ok meta
    by (cases ?r) (auto simp: i app setupRedisClient_not_Err split: prod.splits)
qed

subsection \<open>Clean-up\<close>

lemma main_setup_Ok:
  assumes "main_setup me s g heap cs w = Ok (p, g', cs', w')"
  shows "\<exists>s' w1 logs. InitConfig (me_viper me) (SetupViper (me_viper me) s) = Ok s' \<and>
    pg_cleanup p = cleanUpOps (pg_client p) (v_GetString (me_viper me) s' ENGINE_PLUS_ENABLE_OPEN_TELEMETRY) \<and>
    InitTracerProvider (me_exporters me) (v_GetString (me_viper me) s' ENGINE_PLUS_ENABLE_OPEN_TELEMETRY) g w =
      (pg_provider p, logs, g', w1) \<and> setupFiber (me_cors_New me) (me_viper me) s' = Ok (pg_app p)"
proof -
  obtain s' where s': "InitConfig (me_viper me) (SetupViper (me_viper me) s) = Ok s'"
    using assms by (auto simp: main_setup_def go_simps)
  obtain tp logs g1 w1 where i: "InitTracerProvider (me_exporters me)
      (v_GetString (me_viper me) s' ENGINE_PLUS_ENABLE_OPEN_TELEMETRY) g w = (tp, logs, g1, w1)" by (metis prod_cases4)
  show ?thesis
    using assms unfolding main_setup_eq [OF s' i] by (intro exI [of _ s']) (auto simp: go_simps s' i)
qed

lemma traced_middleware:
  assumes "setupFiber cors_New viper s = Ok app" and "exports_traces (v_GetString viper s ENGINE_PLUS_ENABLE_OPEN_TELEMETRY)"
  shows "\<exists>rw ro public. Otel rw ro public \<in> set (app_middleware app)"
  using assms by (auto simp: setupFiber_def Let_def go_simps split: if_splits)

text \<open>Everything that is set up is cleaned up: the engine servers and the HTTP server always, the clients
  of the cache exactly when there are any, and the tracer whenever it exports. Traces are exported by the
  provider when the middleware makes them. The HTTP server gets less time than the whole shutdown.\<close>

theorem clean_up_covers_setup:
  assumes "main_setup me s g heap cs w = Ok (p, g', cs', w')"
  shows "distinct (map fst (pg_cleanup p)) \<and>
    map_of (pg_cleanup p) ''engine-servers'' = Some StopEngineServers \<and>
    map_of (pg_cleanup p) ''http-server'' = Some (ShutdownHttp (29 * Second)) \<and> 29 * Second < GRACEFUL_SHUTDOWN_TIMEOUT \<and>
    map_of (pg_cleanup p) ''cache-clients'' = (if pg_client p = None then None else Some (CloseCacheClients False)) \<and>
    (if \<exists>x. pg_provider p = BatchProvider x
     then map_of (pg_cleanup p) ''opentelemetry-tracer'' = Some ShutdownTracer \<and> (\<exists>rw ro public. Otel rw ro public \<in> set (app_middleware (pg_app p)))
     else True)"
proof -
  obtain s' w1 logs where c: "pg_cleanup p = cleanUpOps (pg_client p) (v_GetString (me_viper me) s' ENGINE_PLUS_ENABLE_OPEN_TELEMETRY)"
    and i: "InitTracerProvider (me_exporters me) (v_GetString (me_viper me) s' ENGINE_PLUS_ENABLE_OPEN_TELEMETRY) g w =
      (pg_provider p, logs, g', w1)" and f: "setupFiber (me_cors_New me) (me_viper me) s' = Ok (pg_app p)"
    using main_setup_Ok [OF assms] by blast
  have "exports_traces (v_GetString (me_viper me) s' ENGINE_PLUS_ENABLE_OPEN_TELEMETRY)" if "pg_provider p = BatchProvider x" for x
    using InitTracerProvider_cases [OF i] that by (auto simp: exports_traces_def)
  then show ?thesis
    using traced_middleware [OF f] by (auto simp: c cleanUpOps_def GRACEFUL_SHUTDOWN_TIMEOUT_def Second_def)
qed

subsection \<open>Cancelling the main context\<close>

lemma steps_later: "steps (ctx_step own) s s' \<Longrightarrow> later (st_contexts s) (st_contexts s') \<and> st_now s \<le> st_now s'"
  by (induction rule: reachable.induct) (auto simp: later_refl dest!: step_later, auto simp: later_def)

lemma later_children:
  assumes "later cs cs'" and "c < length cs" and "ctx_parent (cs ! c) = Some p"
  shows "c < length cs'" and "ctx_parent (cs' ! c) = Some p"
  using assms by (auto simp: later_def)

text \<open>The main context ends everything: once it is cancelled, because the HTTP server could not listen or
  because a process has ended, both startup contexts and the context of the engine servers are done for
  good. So requests that wait for the startup go on, and the supervisor stops waiting and reports.\<close>

theorem main_cancel_ends_all:
  assumes "main_contexts (program_start now) = (m, s1)" and "steps (ctx_step own) s1 s2"
    and "start_server_context m s2 = (srv, s3)" and "steps (ctx_step own) s3 s4" and "is_done s4 (mc_main m)"
  shows "is_done s4 (mc_startup m) \<and> is_done s4 (mc_readonly m) \<and> is_done s4 srv"
proof -
  from assms(1) have m: "mc_main m = 1" "mc_startup m = 2" "mc_readonly m = 3" "length (st_contexts s1) = 4"
    "ctx_parent (st_contexts s1 ! 2) = Some 1" "ctx_parent (st_contexts s1 ! 3) = Some 1"
    by (auto simp: main_contexts_eq)
  from assms(3) have s3: "srv = length (st_contexts s2)" "srv < length (st_contexts s3)"
    "ctx_parent (st_contexts s3 ! srv) = Some 1" "later (st_contexts s2) (st_contexts s3)"
    by (auto simp: start_server_context_def WithCancel_def m(1) later_append)
  note l2 = conjunct1 [OF steps_later [OF assms(2)]] and l4 = conjunct1 [OF steps_later [OF assms(4)]]
  have len: "4 \<le> length (st_contexts s2)" using l2 m(4) by (simp add: later_def)
  have node: "c < length (st_contexts s4) \<and> ctx_parent (st_contexts s4 ! c) = Some 1" if "c = 2 \<or> c = 3" for c
    using that m later_children [OF l4] later_children [OF s3(4)] later_children [OF l2] by fastforce
  have ends: "is_done s4 c" if "c < length (st_contexts s4)" "ctx_parent (st_contexts s4 ! c) = Some 1" "1 < c" for c
    using done_parent [OF that(1,2,3)] assms(5) by (simp add: is_done_def m(1))
  show ?thesis
    using node later_children [OF l4 s3(2,3)] ends len by (simp add: m s3(1))
qed

subsection \<open>The report of the supervisor\<close>

text \<open>The supervisor gives its report: with a startup deadline, once its context is done when the startup is
  over, it waits for the processes and reports, at once; otherwise it goes on to watch them.\<close>

theorem supervisor_reports:
  assumes "startup_laws su deadline" and "start_commands start cmds w = (Started, w1)"
    and "n = nat ((deadline - su_Now su w1) div 500) + 2"
  shows "\<exists>ready w2. wait_startup n su engine_health_url w1 = Some (ready, w2) \<and>
    StartGraphqlEngineServers n (Suc k) start su sp cmds w =
      (if sp_Done sp w2 then Some (Reports (shutdown_error (sp_states sp (sp_Wait sp w2))), sp_Wait sp w2)
       else map_option (\<lambda>(err, w). (Reports err, w)) (watch (Suc k) sp True w2))"
proof -
  let ?d = "deadline - su_Now su w1"
  have "?d \<le> 500 * int (nat (?d div 500) + 1)"
    using mult_div_mod_eq [of 500 ?d] pos_mod_bound [of 500 ?d] by (cases "0 \<le> ?d") (simp_all add: pos_imp_zdiv_nonneg_iff)
  from wait_startup_enough [OF assms(1) this, of engine_health_url] obtain r
    where "wait_startup n su engine_health_url w1 = Some r" by (auto simp: assms(3) simp del: wait_startup.simps)
  then show ?thesis
    by (cases r) (auto simp: StartGraphqlEngineServers_def assms(2) Let_def simp del: wait_startup.simps)
qed

text \<open>While nobody cancels the main context and the startup is not completed, its context ends with its
  deadline and not before.\<close>

definition startup_open :: "int \<Rightarrow> ctx_state \<Rightarrow> bool" where
  "startup_open now s \<longleftrightarrow> 3 < length (st_contexts s) \<and>
     st_contexts s ! 0 = \<lparr>ctx_parent = None, ctx_deadline = None, ctx_cancelled = False\<rparr> \<and>
     st_contexts s ! 1 = \<lparr>ctx_parent = Some 0, ctx_deadline = None, ctx_cancelled = False\<rparr> \<and>
     st_contexts s ! 2 = \<lparr>ctx_parent = Some 1, ctx_deadline = Some (now + 60 * Second), ctx_cancelled = False\<rparr> \<and>
     (\<forall>(t, n) \<in> set (st_watchers s). 3 \<le> n)"

lemma startup_open_start: "startup_open now (snd (main_contexts (program_start now)))"
  by (simp add: startup_open_def main_contexts_eq)

lemma cancel_others: "i \<noteq> c \<Longrightarrow> cancel_ctx c cs ! i = cs ! i" "length (cancel_ctx c cs) = length cs"
  by (simp_all add: cancel_ctx_def)

lemma startup_open_step:
  assumes "startup_open now s" and "\<forall>c \<in> own. 3 \<le> c" and "ctx_step own s s'"
  shows "startup_open now s'"
  using assms(3)
proof (cases rule: ctx_step.cases)
  case (cancel c)
  then have "3 \<le> c" using assms(2) by simp
  then show ?thesis using assms(1) cancel by (simp add: startup_open_def cancel_others)
next
  case (watcher g)
  then have g: "3 \<le> snd g" using assms(1) by (auto simp: startup_open_def)
  have "set (remove1 g (st_watchers s)) \<subseteq> set (st_watchers s)" by (rule set_remove1_subset)
  then show ?thesis
    using watcher(2) assms(1) g by (fastforce simp: startup_open_def watcher_runs_def cancel_others)
qed (use assms(1) in \<open>auto simp: startup_open_def ctx_ops nth_append Let_def split: if_splits\<close>)

lemma startup_open_steps:
  "steps (ctx_step own) s s' \<Longrightarrow> \<forall>c \<in> own. 3 \<le> c \<Longrightarrow> startup_open now s \<Longrightarrow> startup_open now s'"
  by (induction rule: reachable.induct) (auto intro: startup_open_step)

lemma startup_done_iff: "startup_open now s \<Longrightarrow> is_done s 2 \<longleftrightarrow> now + 60 * Second \<le> st_now s"
  by (simp add: startup_open_def is_done_def ctx_done.simps [of _ _ 2] ctx_done.simps [of _ _ "Suc 0"] ctx_done.simps [of _ _ 0])

text \<open>The supervisor in a world of contexts: its startup context is context 2, what it calls while it waits
  takes steps of contexts, and time goes on.\<close>

definition supervised :: "('w \<Rightarrow> ctx_state) \<Rightarrow> nat set \<Rightarrow> (command \<Rightarrow> 'w \<Rightarrow> string option \<times> 'w) \<Rightarrow> 'w startup_ops \<Rightarrow> 'w super_ops \<Rightarrow> bool" where
  "supervised ctxs own start su sp \<longleftrightarrow>
     (\<forall>w. su_Err su w \<noteq> None \<longleftrightarrow> is_done (ctxs w) 2) \<and>
     (\<forall>cmd w. steps (ctx_step own) (ctxs w) (ctxs (snd (start cmd w)))) \<and>
     (\<forall>d w. steps (ctx_step own) (ctxs w) (ctxs (su_Sleep su d w))) \<and>
     (\<forall>url w. steps (ctx_step own) (ctxs w) (ctxs (snd (su_Get su url w)))) \<and>
     (\<forall>d w. st_now (ctxs w) \<le> st_now (ctxs (sp_Wait sp w)) \<and> st_now (ctxs w) \<le> st_now (ctxs (sp_cancelMain sp w)) \<and>
        st_now (ctxs w) \<le> st_now (ctxs (sp_Sleep sp d w)))"

lemma started_open:
  assumes "supervised ctxs own start su sp" and "\<forall>c \<in> own. 3 \<le> c"
  shows "startup_open now (ctxs w) \<Longrightarrow> start_commands start cmds w = (r, w') \<Longrightarrow> startup_open now (ctxs w')"
proof (induction cmds arbitrary: w)
  case (Cons cmd cmds)
  obtain x w1 where c: "start cmd w = (x, w1)" by fastforce
  have "steps (ctx_step own) (ctxs w) (ctxs (snd (start cmd w)))" using assms(1) by (simp add: supervised_def)
  then have "startup_open now (ctxs w1)" using startup_open_steps [OF _ assms(2) Cons.prems(1)] by (simp add: c)
  then show ?case using Cons c by (auto split: option.splits)
qed simp

lemma waits_until_deadline:
  assumes "supervised ctxs own start su sp" and "\<forall>c \<in> own. 3 \<le> c" and "\<forall>url w. fst (su_Get su url w) \<noteq> 200"
  shows "startup_open now (ctxs w) \<Longrightarrow> wait_startup n su url w = Some (r, w') \<Longrightarrow>
    r = NotReady \<and> now + 60 * Second \<le> st_now (ctxs w')"
proof (induction n arbitrary: w)
  case (Suc n)
  show ?case
  proof (cases "su_Err su w = None")
    case True
    obtain code w2 where g: "su_Get su url (su_Sleep su 500 w) = (code, w2)" by fastforce
    have "steps (ctx_step own) (ctxs w) (ctxs (su_Sleep su 500 w))"
      "steps (ctx_step own) (ctxs (su_Sleep su 500 w)) (ctxs (snd (su_Get su url (su_Sleep su 500 w))))"
      using assms(1) unfolding supervised_def by blast+
    then have "startup_open now (ctxs w2)" using Suc.prems(1) assms(2) startup_open_steps by (fastforce simp: g)
    moreover have "code \<noteq> 200" using assms(3) g by (metis fst_conv)
    then have "wait_startup n su url w2 = Some (r, w')" using Suc.prems(2) True g by (simp add: Let_def)
    ultimately show ?thesis by (rule Suc.IH)
  next
    case False
    then have "is_done (ctxs w) 2" using assms(1) by (simp add: supervised_def)
    then show ?thesis using False Suc.prems startup_done_iff by auto
  qed
qed simp

lemma scan_time:
  "(\<And>w. t (w :: 'w) \<le> (t (sp_cancelMain ops w) :: int)) \<Longrightarrow> t w \<le> t (snd (scan ops sts check w))"
  by (induction ops sts check w rule: scan.induct) (auto intro: order_trans)

lemma watch_time:
  assumes "supervised ctxs own start su sp"
  shows "watch k sp check w = Some (e, w') \<Longrightarrow> st_now (ctxs w) \<le> st_now (ctxs w')"
proof (induction k arbitrary: check w)
  case (Suc k)
  have cancel: "st_now (ctxs w) \<le> st_now (ctxs (sp_cancelMain sp w))"
    and sleep: "st_now (ctxs w) \<le> st_now (ctxs (sp_Sleep sp 1000 w))"
    and wait: "st_now (ctxs w) \<le> st_now (ctxs (sp_Wait sp w))" for w
    using assms by (simp_all add: supervised_def)
  show ?case
  proof (cases "sp_Done sp w")
    case True
    then show ?thesis using Suc.prems wait by (auto simp: Let_def)
  next
    case False
    obtain b w1 where s: "(if check then scan sp (sp_states sp w) check w else (check, w)) = (b, w1)" by fastforce
    with scan_time [of "\<lambda>w. st_now (ctxs w)" sp w "sp_states sp w" check, OF cancel]
    have "st_now (ctxs w) \<le> st_now (ctxs w1)" by (auto split: if_splits)
    also have "\<dots> \<le> st_now (ctxs (sp_Sleep sp 1000 w1))" by (rule sleep)
    also have "\<dots> \<le> st_now (ctxs w')" using Suc.prems False s by (intro Suc.IH) simp
    finally show ?thesis .
  qed
qed simp

text \<open>C24. A shutdown waits for the startup: the supervisor looks at its own context only after the startup is over,
  and cancelling that context does not end the startup. So when the program is told to stop, without its
  main context being cancelled, and the engines do not become ready, because the shutdown has stopped them,
  then no report comes before the 60 seconds of the startup have passed, however early the shutdown began;
  and a shutdown may take 30 seconds in all.\<close>

theorem shutdown_waits_for_startup:
  assumes "main_contexts (program_start now) = (m, s1)" and "steps (ctx_step own) s1 s2"
    and "start_server_context m s2 = (srv, s3)" and "steps (ctx_step own) s3 (ctxs w)"
    and "\<forall>c \<in> own. mc_startup m < c"
    and "supervised ctxs own start su sp" and "\<forall>url w. fst (su_Get su url w) \<noteq> 200"
    and "StartGraphqlEngineServers n k start su sp cmds w = Some (Reports e, w')"
  shows "now + 60 * Second \<le> st_now (ctxs w') \<and> GRACEFUL_SHUTDOWN_TIMEOUT < 60 * Second"
proof -
  have own: "\<forall>c \<in> own. 3 \<le> c" using assms(1,5) by (fastforce simp: main_contexts_eq)
  have "startup_open now s2"
    using startup_open_start [of now] startup_open_steps [OF assms(2) own] by (simp add: assms(1))
  then have "startup_open now s3"
    using assms(3) by (auto simp: start_server_context_def WithCancel_def startup_open_def nth_append)
  then have begun: "startup_open now (ctxs w)" by (rule startup_open_steps [OF assms(4) own])
  obtain w1 r w2 where st: "start_commands start cmds w = (Started, w1)"
    and wait: "wait_startup n su engine_health_url w1 = Some (r, w2)" and watch: "watch k sp True w2 = Some (e, w')"
    using assms(8) by (auto simp: StartGraphqlEngineServers_def split: prod.splits start_outcome.splits option.splits)
  have "startup_open now (ctxs w1)" by (rule started_open [OF assms(6) own begun st])
  from waits_until_deadline [OF assms(6) own assms(7) this wait] watch_time [OF assms(6) watch]
  show ?thesis by (simp add: GRACEFUL_SHUTDOWN_TIMEOUT_def Second_def)
qed

subsection \<open>Examples\<close>

definition sim_main :: "(string \<rightharpoonup> cfg_value, unit, unit, string list \<times> string list) main_env" where
  "sim_main =
     \<lparr>me_viper = map_viper,
      me_exporters = \<lparr>otlptracehttp_New = \<lambda>w. (Inr (), w), otlptracegrpc_New = \<lambda>w. (Inl ''no'', w)\<rparr>,
      me_net = sim_net, me_regexp_Compile = \<lambda>_. None, me_cors_New = \<lambda>_. True,
      me_ParseClusterURL = no_tls, me_ParseURL = \<lambda>_. Inr (), me_nodes = sim_nodes_ops,
      me_ping = \<lambda>_ w. (None, w)\<rparr>"

definition no_globals :: "unit otel_globals" where
  "no_globals = \<lparr>global_provider = None, global_propagator = False\<rparr>"

lemma map_viper_default: "default_law map_viper"
  by (simp add: default_law_def map_viper_def)

theorem main_panics_iff_witness:
  "\<exists>p. main_setup sim_main Map.empty no_globals [] (program_start 0) ([], []) = Panic p"
proof -
  have "v_GetString (me_viper sim_main) (SetupViper (me_viper sim_main) Map.empty) ENGINE_PLUS_SCRIPTING_PUBLIC_PATH = []"
    by (simp add: sim_main_def map_viper_def SetupViper_def)
  then show ?thesis
    using main_panics_iff [of sim_main _ Map.empty no_globals "[]" "program_start 0" "([], [])", OF _ _ refl]
    by (simp add: sim_main_def map_viper_laws map_viper_default)
qed

lemma sim_main_starts:
  "\<exists>p g cs w. main_setup sim_main traced_config no_globals [] (program_start 0) ([], []) = Ok (p, g, cs, w) \<and>
     pg_provider p = BatchProvider ()"
proof -
  obtain s' where s': "InitConfig map_viper traced_config = Ok s'"
    and v: "v_GetString map_viper s' ENGINE_PLUS_ENABLE_OPEN_TELEMETRY = ''http''"
      "v_GetString map_viper s' ENGINE_PLUS_SCRIPTING_PUBLIC_PATH = ''/x/''"
      "v_GetString map_viper s' HASURA_GRAPHQL_REDIS_URL = []" "v_GetString map_viper s' HASURA_GRAPHQL_REDIS_CLUSTER_URL = []"
    by (simp add: InitConfig_def strip_meta_path_cases limit_wait_eta_def config_defaults_def map_viper_def traced_config_def
        config_keys)
  have m: "me_viper sim_main = map_viper" "SetupViper map_viper s = s" for s
    by (simp_all add: sim_main_def SetupViper_def map_viper_def)
  have i: "InitTracerProvider (me_exporters sim_main) ''http'' no_globals ([], []) =
      (BatchProvider (), [], \<lparr>global_provider = Some (BatchProvider ()), global_propagator = True\<rparr>, ([], []))"
    by (simp add: InitTracerProvider_def sim_main_def no_globals_def Let_def)
  have r: "setupRedisClient (me_net sim_main) (me_regexp_Compile sim_main) (me_ParseClusterURL sim_main) (me_ParseURL sim_main) (me_nodes sim_main)
      (me_ping sim_main) (redis_cfg_of map_viper s') [] ([], []) = Ok (None, ([], []))"
    by (simp add: setupRedisClient_def redis_cfg_of_def v)
  obtain app where "setupFiber (me_cors_New sim_main) map_viper s' = Ok app"
    using setupFiber_outcome [of "me_cors_New sim_main" map_viper s'] by (auto simp: v sim_main_def)
  then show ?thesis
    using main_setup_eq [of sim_main traced_config s' no_globals "([], [])"] s' i r by (simp add: m v)
qed

theorem clean_up_covers_setup_witness:
  "\<exists>p g cs w. main_setup sim_main traced_config no_globals [] (program_start 0) ([], []) = Ok (p, g, cs, w) \<and>
     map_of (pg_cleanup p) ''opentelemetry-tracer'' = Some ShutdownTracer"
proof -
  obtain p g cs w where m: "main_setup sim_main traced_config no_globals [] (program_start 0) ([], []) = Ok (p, g, cs, w)"
    "pg_provider p = BatchProvider ()" using sim_main_starts by blast
  from clean_up_covers_setup [OF m(1)] m show ?thesis by auto
qed

theorem main_cancel_ends_all_witness:
  "\<exists>s4. is_done s4 1 \<and> is_done s4 2 \<and> is_done s4 3 \<and> is_done s4 4"
proof -
  let ?m = "\<lparr>mc_main = 1, mc_startup = 2, mc_readonly = 3\<rparr> :: main_ctxs"
  let ?s1 = "snd (main_contexts (program_start 0))"
  let ?s3 = "snd (start_server_context ?m ?s1)"
  let ?s4 = "?s3\<lparr>st_contexts := cancel_ctx 1 (st_contexts ?s3)\<rparr>"
  have m: "main_contexts (program_start 0) = (?m, ?s1)" by (simp add: main_contexts_eq)
  have srv: "start_server_context ?m ?s1 = (4, ?s3)"
    by (simp add: start_server_context_def WithCancel_def main_contexts_eq)
  have "steps (ctx_step {1}) ?s3 ?s4" by (rule after_step, rule steps_refl, rule cancel) simp
  moreover have d: "is_done ?s4 (mc_main ?m)"
    by (simp add: is_done_def start_server_context_def WithCancel_def main_contexts_eq cancel_ctx_def ctx_done.simps)
  ultimately show ?thesis
    using main_cancel_ends_all [OF m steps_refl srv, of "{1}" ?s4] by auto
qed

definition always_done :: "int super_ops" where
  "always_done =
     \<lparr>sp_Done = \<lambda>w. True, sp_Wait = \<lambda>w. w, sp_states = \<lambda>w. [], sp_cancelMain = \<lambda>w. w, sp_Sleep = \<lambda>d w. w\<rparr>"

theorem supervisor_reports_witness:
  "\<exists>w. StartGraphqlEngineServers 122 1 (\<lambda>cmd w. (None, w)) clock_startup always_done [scripting_command] 0 =
     Some (Reports None, w)"
proof -
  have laws: "startup_laws clock_startup 60000" by (simp add: startup_laws_def clock_startup_def)
  have "start_commands (\<lambda>cmd w. (None, w)) [scripting_command] (0 :: int) = (Started, 0)" by simp
  from supervisor_reports [OF laws this, of 122 0 always_done] show ?thesis
    by (auto simp: clock_startup_def always_done_def shutdown_error_def)
qed

text \<open>A world that is its contexts, in which every sleep lasts a minute and no probe succeeds.\<close>

definition slow_startup :: "ctx_state startup_ops" where
  "slow_startup =
     \<lparr>su_Err = \<lambda>s. if is_done s 2 then Some ''context deadline exceeded'' else None,
      su_Sleep = \<lambda>d s. s\<lparr>st_now := st_now s + 60 * Second\<rparr>,
      su_Get = \<lambda>url s. (503, s),
      su_Done = \<lambda>s. s,
      su_Now = \<lambda>s. st_now s div 1000000\<rparr>"

definition done_super :: "ctx_state super_ops" where
  "done_super =
     \<lparr>sp_Done = \<lambda>w. True, sp_Wait = \<lambda>w. w, sp_states = \<lambda>w. [], sp_cancelMain = \<lambda>w. w, sp_Sleep = \<lambda>d w. w\<rparr>"

theorem shutdown_waits_for_startup_witness:
  "\<exists>w s'. StartGraphqlEngineServers 2 1 (\<lambda>cmd w. (None, w)) slow_startup done_super [] w = Some (Reports None, s') \<and>
     60 * Second \<le> st_now s'"
proof -
  let ?m = "\<lparr>mc_main = 1, mc_startup = 2, mc_readonly = 3\<rparr> :: main_ctxs"
  let ?s1 = "snd (main_contexts (program_start 0))"
  let ?s3 = "snd (start_server_context ?m ?s1)"
  have m: "main_contexts (program_start 0) = (?m, ?s1)" by (simp add: main_contexts_eq)
  have srv: "start_server_context ?m ?s1 = (4, ?s3)"
    by (simp add: start_server_context_def WithCancel_def main_contexts_eq)
  have "steps (ctx_step {4}) s (s\<lparr>st_now := st_now s + 60 * Second\<rparr>)" for s
    by (rule after_step, rule steps_refl, rule time_passes) (simp add: Second_def)
  then have sup: "supervised (\<lambda>s. s) {4} (\<lambda>cmd w. (None, w)) slow_startup done_super"
    by (simp add: supervised_def slow_startup_def done_super_def steps_refl)
  have "\<not> is_done ?s3 2" "is_done (?s3\<lparr>st_now := st_now ?s3 + 60 * Second\<rparr>) 2"
    by (simp_all add: is_done_def start_server_context_def WithCancel_def main_contexts_eq ctx_done.simps Second_def)
  then have run: "StartGraphqlEngineServers 2 1 (\<lambda>cmd w. (None, w)) slow_startup done_super [] ?s3 =
      Some (Reports None, ?s3\<lparr>st_now := st_now ?s3 + 60 * Second\<rparr>)"
    by (simp add: StartGraphqlEngineServers_def slow_startup_def done_super_def shutdown_error_def numeral_2_eq_2)
  have "0 + 60 * Second \<le> st_now (?s3\<lparr>st_now := st_now ?s3 + 60 * Second\<rparr>)"
    by (rule shutdown_waits_for_startup [OF m steps_refl srv _ _ sup _ run, THEN conjunct1])
      (simp_all add: steps_refl slow_startup_def)
  then have "60 * Second \<le> st_now (?s3\<lparr>st_now := st_now ?s3 + 60 * Second\<rparr>)" by linarith
  with run show ?thesis by blast
qed

end
