(* ===== verification/Shutdown.thy ===== *)
theory Shutdown
  imports Lifecycle Log_Pipeline
begin

text \<open>
  The program while it runs and while it shuts down, \<open>main\<close> of \<open>src/main.go\<close> together with
  \<open>StartGraphqlEngineServers\<close> of \<open>src/graphql_engine_servers.go\<close>: the goroutine of the supervisor, the ones that
  wait for a process, the one that waits for the replica to be ready, the log of the replica, the HTTP
  server that may fail to listen, the clean-up operation \<open>engine-servers\<close>, and the ends of the program. They take single
  steps in any order, over the contexts of \<open>main\<close>: \<open>own_step\<close> is what a goroutine can do by itself, \<open>event_step\<close> what
  the program does when something reaches it from outside, \<open>env_step\<close> what happens around it. The library that
  runs the clean-up operations decides when they begin and, by its parameter \<open>re_exits\<close>, when it hands over the
  exit code. Instants are in nanoseconds.
\<close>

subsection \<open>States\<close>

text \<open>A process that has been started. \<open>cmd.Wait\<close> sets \<open>ProcessState\<close> as soon as the process has ended, and
  returns after its output has been copied; then the process is no longer waited for. \<open>pc_signalled\<close> says
  that its \<open>Cancel\<close> has been called.\<close>

record proc =
  pc_command :: command
  pc_signalled :: bool
  pc_ProcessState :: "proc_state option"
  pc_waited :: bool

text \<open>Where a goroutine is that waits for a server to be ready: about to look at its context, asleep until an
  instant, or waiting for the answer of the probe. Then where the goroutine of the supervisor is; while it
  watches it looks at its context and at the processes once a second.\<close>

datatype poll = Looking | Asleep int | Asking

datatype supervisor_phase =
  Starting "command list" | AwaitStartup poll | Watching | Resting int | AwaitAll
  | Reporting "string option" | Reported "string option"

text \<open>The operation \<open>engine-servers\<close>: it cancels the context of the engine servers and receives the report.\<close>

datatype stop_op = NotBegun | AwaitReport | Received "string option"

text \<open>How the program ends: a process could not be started (code 1), the server of groupcache failed (code 1), a
  handler panicked (code 2), or \<open>main\<close> exits with the code that the library handed it after the clean-up.\<close>

datatype exit_reason = StartFailed | ServerFatal | Panicked | CleanedUp nat

record run_state =
  rn_ctx :: ctx_state
  rn_procs :: "proc list"
  rn_log :: log_state
  rn_phase :: supervisor_phase
  rn_check :: bool
  rn_replica :: "poll option"
  rn_listening :: bool
  rn_stop :: stop_op
  rn_begun :: "int option"
  rn_exit :: "exit_reason option"

text \<open>The contexts; whether a server of groupcache runs; and the library: whether it hands over a code some time
  after the beginning of the shutdown, when the engine servers have reported or not.\<close>

record run_env =
  re_ctxs :: main_ctxs
  re_srv :: nat
  re_groupcache :: bool
  re_exits :: "int \<Rightarrow> bool \<Rightarrow> nat \<Rightarrow> bool"

abbreviation run_now :: "run_state \<Rightarrow> int" where
  "run_now s \<equiv> st_now (rn_ctx s)"

abbreviation main_done :: "run_env \<Rightarrow> run_state \<Rightarrow> bool" where
  "main_done E s \<equiv> is_done (rn_ctx s) (mc_main (re_ctxs E))"

abbreviation srv_done :: "run_env \<Rightarrow> run_state \<Rightarrow> bool" where
  "srv_done E s \<equiv> is_done (rn_ctx s) (re_srv E)"

abbreviation startup_done :: "run_env \<Rightarrow> run_state \<Rightarrow> bool" where
  "startup_done E s \<equiv> is_done (rn_ctx s) (mc_startup (re_ctxs E))"

abbreviation readonly_done :: "run_env \<Rightarrow> run_state \<Rightarrow> bool" where
  "readonly_done E s \<equiv> is_done (rn_ctx s) (mc_readonly (re_ctxs E))"

definition cancel_run :: "nat \<Rightarrow> run_state \<Rightarrow> run_state" where
  "cancel_run c s = s\<lparr>rn_ctx := (rn_ctx s)\<lparr>st_contexts := cancel_ctx c (st_contexts (rn_ctx s))\<rparr>\<rparr>"

definition proc_states :: "run_state \<Rightarrow> proc_state option list" where
  "proc_states s = map pc_ProcessState (rn_procs s)"

text \<open>What the supervisor does in its loop, in this world. The wait for the processes and the sleep are steps of
  their own, so that the operations do nothing here.\<close>

definition run_super :: "run_env \<Rightarrow> run_state super_ops" where
  "run_super E =
     \<lparr>sp_Done = srv_done E, sp_Wait = \<lambda>s. s, sp_states = proc_states,
      sp_cancelMain = cancel_run (mc_main (re_ctxs E)), sp_Sleep = \<lambda>d s. s\<rparr>"

text \<open>The third process is the replica; the goroutine that waits for it starts with it.\<close>

definition start_process :: "command \<Rightarrow> run_state \<Rightarrow> run_state" where
  "start_process cmd s =
     s\<lparr>rn_procs := rn_procs s @ [\<lparr>pc_command = cmd, pc_signalled = False, pc_ProcessState = None, pc_waited = False\<rparr>],
       rn_replica := (if length (rn_procs s) = 2 then Some Looking else rn_replica s)\<rparr>"

definition set_proc :: "nat \<Rightarrow> (proc \<Rightarrow> proc) \<Rightarrow> run_state \<Rightarrow> run_state" where
  "set_proc i f s = s\<lparr>rn_procs := (rn_procs s)[i := f (rn_procs s ! i)]\<rparr>"

text \<open>One turn of the loop of the supervisor, while its context is not done.\<close>

definition watch_round :: "run_env \<Rightarrow> run_state \<Rightarrow> run_state" where
  "watch_round E s =
     (let (check, s) = (if rn_check s then scan (run_super E) (proc_states s) (rn_check s) s else (rn_check s, s))
      in s\<lparr>rn_check := check, rn_phase := Resting (run_now s + 1 * Second)\<rparr>)"

text \<open>The loops that wait for a server: half a second of sleep comes before each probe.\<close>

definition poll_sleep :: "run_state \<Rightarrow> poll" where
  "poll_sleep s = Asleep (run_now s + 500 * 1000000)"

text \<open>A probe that was answered with 200 ends the startup of the engines, or that of the replica.\<close>

definition startup_completed :: "run_env \<Rightarrow> run_state \<Rightarrow> run_state" where
  "startup_completed E s = (cancel_run (mc_startup (re_ctxs E)) s)\<lparr>rn_phase := Watching\<rparr>"

definition replica_completed :: "run_env \<Rightarrow> run_state \<Rightarrow> run_state" where
  "replica_completed E s = (cancel_run (mc_readonly (re_ctxs E)) s)\<lparr>rn_replica := None\<rparr>"

definition startup_answered :: "run_env \<Rightarrow> nat \<Rightarrow> run_state \<Rightarrow> run_state" where
  "startup_answered E code s = (if code = 200 then startup_completed E s else s\<lparr>rn_phase := AwaitStartup Looking\<rparr>)"

definition replica_answered :: "run_env \<Rightarrow> nat \<Rightarrow> run_state \<Rightarrow> run_state" where
  "replica_answered E code s = (if code = 200 then replica_completed E s else s\<lparr>rn_replica := Some Looking\<rparr>)"

text \<open>The HTTP server stopped listening, with an error or without; the operation \<open>engine-servers\<close> begins, and waits for
  the report from then on; the exit.\<close>

definition listen_returned :: "run_env \<Rightarrow> bool \<Rightarrow> run_state \<Rightarrow> run_state" where
  "listen_returned E failed s = (if failed then cancel_run (mc_main (re_ctxs E)) s else s)\<lparr>rn_listening := False\<rparr>"

definition stop_engine_servers :: "run_env \<Rightarrow> run_state \<Rightarrow> run_state" where
  "stop_engine_servers E s = (cancel_run (re_srv E) s)\<lparr>rn_stop := AwaitReport, rn_begun := Some (run_now s)\<rparr>"

definition exit_main :: "exit_reason \<Rightarrow> run_state \<Rightarrow> run_state" where
  "exit_main reason s = s\<lparr>rn_exit := Some reason\<rparr>"

subsection \<open>Steps\<close>

text \<open>Steps the goroutines can take by themselves. \<open>cmd.Start\<close> fails when the context is done. The goroutine of a
  process copies the output of the replica before it ends. The log moves with the context of the engine servers.\<close>

inductive own_step :: "run_env \<Rightarrow> run_state \<Rightarrow> run_state \<Rightarrow> bool" for E where
  start_ok: "rn_exit s = None \<Longrightarrow> rn_phase s = Starting (cmd # cmds) \<Longrightarrow> \<not> srv_done E s \<Longrightarrow>
    own_step E s ((start_process cmd s)\<lparr>rn_phase := Starting cmds\<rparr>)"
| start_fails: "rn_exit s = None \<Longrightarrow> rn_phase s = Starting (cmd # cmds) \<Longrightarrow> own_step E s (exit_main StartFailed s)"
| all_started: "rn_exit s = None \<Longrightarrow> rn_phase s = Starting [] \<Longrightarrow> own_step E s (s\<lparr>rn_phase := AwaitStartup Looking\<rparr>)"
| startup_over: "rn_exit s = None \<Longrightarrow> rn_phase s = AwaitStartup Looking \<Longrightarrow> startup_done E s \<Longrightarrow>
    own_step E s (s\<lparr>rn_phase := Watching\<rparr>)"
| startup_sleeps: "rn_exit s = None \<Longrightarrow> rn_phase s = AwaitStartup Looking \<Longrightarrow> \<not> startup_done E s \<Longrightarrow>
    own_step E s (s\<lparr>rn_phase := AwaitStartup (poll_sleep s)\<rparr>)"
| startup_asks: "rn_exit s = None \<Longrightarrow> rn_phase s = AwaitStartup (Asleep w) \<Longrightarrow> w \<le> run_now s \<Longrightarrow>
    own_step E s (s\<lparr>rn_phase := AwaitStartup Asking\<rparr>)"
| replica_over: "rn_exit s = None \<Longrightarrow> rn_replica s = Some Looking \<Longrightarrow> readonly_done E s \<Longrightarrow>
    own_step E s (s\<lparr>rn_replica := None\<rparr>)"
| replica_sleeps: "rn_exit s = None \<Longrightarrow> rn_replica s = Some Looking \<Longrightarrow> \<not> readonly_done E s \<Longrightarrow>
    own_step E s (s\<lparr>rn_replica := Some (poll_sleep s)\<rparr>)"
| replica_asks: "rn_exit s = None \<Longrightarrow> rn_replica s = Some (Asleep w) \<Longrightarrow> w \<le> run_now s \<Longrightarrow>
    own_step E s (s\<lparr>rn_replica := Some Asking\<rparr>)"
| watch_turn: "rn_exit s = None \<Longrightarrow> rn_phase s = Watching \<Longrightarrow> \<not> srv_done E s \<Longrightarrow> own_step E s (watch_round E s)"
| watch_rested: "rn_exit s = None \<Longrightarrow> rn_phase s = Resting w \<Longrightarrow> w \<le> run_now s \<Longrightarrow> own_step E s (s\<lparr>rn_phase := Watching\<rparr>)"
| watch_over: "rn_exit s = None \<Longrightarrow> rn_phase s = Watching \<Longrightarrow> srv_done E s \<Longrightarrow> own_step E s (s\<lparr>rn_phase := AwaitAll\<rparr>)"
| all_waited: "rn_exit s = None \<Longrightarrow> rn_phase s = AwaitAll \<Longrightarrow> list_all pc_waited (rn_procs s) \<Longrightarrow>
    own_step E s (s\<lparr>rn_phase := Reporting (shutdown_error (proc_states s))\<rparr>)"
| report: "rn_exit s = None \<Longrightarrow> rn_phase s = Reporting e \<Longrightarrow> rn_stop s = AwaitReport \<Longrightarrow>
    own_step E s (s\<lparr>rn_phase := Reported e, rn_stop := Received e\<rparr>)"
| signal: "rn_exit s = None \<Longrightarrow> i < length (rn_procs s) \<Longrightarrow> srv_done E s \<Longrightarrow> \<not> pc_signalled (rn_procs s ! i) \<Longrightarrow>
    pc_ProcessState (rn_procs s ! i) = None \<Longrightarrow> own_step E s (set_proc i (\<lambda>p. p\<lparr>pc_signalled := True\<rparr>) s)"
| waited: "rn_exit s = None \<Longrightarrow> i < length (rn_procs s) \<Longrightarrow> pc_ProcessState (rn_procs s ! i) \<noteq> None \<Longrightarrow>
    \<not> pc_waited (rn_procs s ! i) \<Longrightarrow> (if i = 2 then lg_unread (rn_log s) = [] else True) \<Longrightarrow>
    own_step E s (set_proc i (\<lambda>p. p\<lparr>pc_waited := True\<rparr>) s)"
| log_moves: "rn_exit s = None \<Longrightarrow> reader_step ((rn_log s)\<lparr>lg_cancelled := srv_done E s\<rparr>) l \<Longrightarrow>
    own_step E s (s\<lparr>rn_log := l\<rparr>)"

text \<open>What the program does when something reaches it from outside: an answer to a probe, the return of \<open>Listen\<close>, the
  call of the clean-up operation, the exit code of the library; a server of groupcache that fails is
  fatal, and a panic in a handler ends the program, as nothing recovers from it.\<close>

inductive event_step :: "run_env \<Rightarrow> run_state \<Rightarrow> run_state \<Rightarrow> bool" for E where
  startup_answer: "rn_exit s = None \<Longrightarrow> rn_phase s = AwaitStartup Asking \<Longrightarrow> event_step E s (startup_answered E code s)"
| replica_answer: "rn_exit s = None \<Longrightarrow> rn_replica s = Some Asking \<Longrightarrow> event_step E s (replica_answered E code s)"
| listen_returns: "rn_exit s = None \<Longrightarrow> rn_listening s \<Longrightarrow> event_step E s (listen_returned E failed s)"
| stop_begins: "rn_exit s = None \<Longrightarrow> rn_stop s = NotBegun \<Longrightarrow> event_step E s (stop_engine_servers E s)"
| main_exits: "rn_exit s = None \<Longrightarrow> rn_begun s = Some t \<Longrightarrow>
    re_exits E (run_now s - t) (\<exists>e. rn_stop s = Received e) code \<Longrightarrow> event_step E s (exit_main (CleanedUp code) s)"
| groupcache_fails: "rn_exit s = None \<Longrightarrow> re_groupcache E \<Longrightarrow> event_step E s (exit_main ServerFatal s)"
| handler_panics: "rn_exit s = None \<Longrightarrow> event_step E s (exit_main Panicked s)"

text \<open>What happens around it: a process ends or writes, requests come with contexts of their own, time passes.\<close>

definition request_ctxs :: "run_env \<Rightarrow> nat set" where
  "request_ctxs E = {c. mc_readonly (re_ctxs E) < c \<and> c \<noteq> re_srv E}"

inductive env_step :: "run_env \<Rightarrow> run_state \<Rightarrow> run_state \<Rightarrow> bool" for E where
  process_ends: "rn_exit s = None \<Longrightarrow> i < length (rn_procs s) \<Longrightarrow> pc_ProcessState (rn_procs s ! i) = None \<Longrightarrow>
    env_step E s (set_proc i (\<lambda>p. p\<lparr>pc_ProcessState := Some st\<rparr>) s)"
| replica_writes: "rn_exit s = None \<Longrightarrow> 2 < length (rn_procs s) \<Longrightarrow> pc_ProcessState (rn_procs s ! 2) = None \<Longrightarrow>
    env_step E s (s\<lparr>rn_log := (rn_log s)\<lparr>lg_written := lg_written (rn_log s) @ ls, lg_unread := lg_unread (rn_log s) @ ls\<rparr>\<rparr>)"
| world: "rn_exit s = None \<Longrightarrow> ctx_step (request_ctxs E) (rn_ctx s) cs \<Longrightarrow> env_step E s (s\<lparr>rn_ctx := cs\<rparr>)"

definition run_step :: "run_env \<Rightarrow> run_state \<Rightarrow> run_state \<Rightarrow> bool" where
  "run_step E s s' \<longleftrightarrow> own_step E s s' \<or> event_step E s s' \<or> env_step E s s'"

inductive_cases own_stepE: "own_step E s s'"
inductive_cases event_stepE: "event_step E s s'"
inductive_cases env_stepE: "env_step E s s'"

text \<open>The program when the goroutine of the supervisor begins: the contexts that \<open>main\<close> and the supervisor
  watch are children of the main one, which has no deadline and descends from the background only, and both
  startup contexts have a deadline. The HTTP server may have been started already, and may have made
  contexts for requests; no goroutine cancels the main context.\<close>

definition child_of_main :: "run_env \<Rightarrow> ctx_state \<Rightarrow> nat \<Rightarrow> bool" where
  "child_of_main E cs c \<longleftrightarrow> mc_main (re_ctxs E) < c \<and> c < length (st_contexts cs) \<and>
     ctx_parent (st_contexts cs ! c) = Some (mc_main (re_ctxs E))"

definition has_deadline :: "ctx_state \<Rightarrow> nat \<Rightarrow> bool" where
  "has_deadline cs c \<longleftrightarrow> ctx_deadline (st_contexts cs ! c) \<noteq> None"

definition main_ctx :: "run_env \<Rightarrow> ctx_state \<Rightarrow> bool" where
  "main_ctx E cs \<longleftrightarrow>
     (\<exists>b < mc_main (re_ctxs E). ctx_parent (st_contexts cs ! mc_main (re_ctxs E)) = Some b \<and>
        st_contexts cs ! b = \<lparr>ctx_parent = None, ctx_deadline = None, ctx_cancelled = False\<rparr>) \<and>
     ctx_deadline (st_contexts cs ! mc_main (re_ctxs E)) = None \<and> (\<forall>(t, n) \<in> set (st_watchers cs). mc_main (re_ctxs E) < n)"

definition run_ctxs :: "run_env \<Rightarrow> ctx_state \<Rightarrow> bool" where
  "run_ctxs E cs \<longleftrightarrow>
     list_all (child_of_main E cs) [mc_startup (re_ctxs E), mc_readonly (re_ctxs E), re_srv E] \<and>
     has_deadline cs (mc_startup (re_ctxs E)) \<and> has_deadline cs (mc_readonly (re_ctxs E)) \<and> main_ctx E cs"

definition run_start :: "run_env \<Rightarrow> command list \<Rightarrow> run_state \<Rightarrow> bool" where
  "run_start E cmds s \<longleftrightarrow>
     rn_procs s = [] \<and> log_start (rn_log s) \<and> rn_phase s = Starting cmds \<and> rn_check s \<and> rn_replica s = None \<and>
     rn_stop s = NotBegun \<and> rn_begun s = None \<and> rn_exit s = None \<and> run_ctxs E (rn_ctx s)"

lemma own_next: "reachable st (run_step E) s \<Longrightarrow> own_step E s s' \<Longrightarrow> reachable st (run_step E) s'"
  by (auto intro: after_step simp: run_step_def)

lemma event_next: "reachable st (run_step E) s \<Longrightarrow> event_step E s s' \<Longrightarrow> reachable st (run_step E) s'"
  by (auto intro: after_step simp: run_step_def)

lemma env_next: "reachable st (run_step E) s \<Longrightarrow> env_step E s s' \<Longrightarrow> reachable st (run_step E) s'"
  by (auto intro: after_step simp: run_step_def)

subsection \<open>The contexts of the running program\<close>

lemma cancel_run_sel [simp]:
  "rn_procs (cancel_run c s) = rn_procs s" "rn_log (cancel_run c s) = rn_log s" "rn_phase (cancel_run c s) = rn_phase s"
  "rn_check (cancel_run c s) = rn_check s" "rn_replica (cancel_run c s) = rn_replica s"
  "rn_listening (cancel_run c s) = rn_listening s"
  "rn_stop (cancel_run c s) = rn_stop s" "rn_begun (cancel_run c s) = rn_begun s" "rn_exit (cancel_run c s) = rn_exit s"
  "run_now (cancel_run c s) = run_now s" "proc_states (cancel_run c s) = proc_states s"
  by (simp_all add: cancel_run_def proc_states_def)

text \<open>Contexts only grow: the ones that are done stay done.\<close>

definition ctx_grows :: "ctx_state \<Rightarrow> ctx_state \<Rightarrow> bool" where
  "ctx_grows cs cs' \<longleftrightarrow> later (st_contexts cs) (st_contexts cs') \<and> st_now cs \<le> st_now cs'"

lemma ctx_grows_refl [simp]: "ctx_grows cs cs"
  by (simp add: ctx_grows_def later_refl)

lemma later_trans: "later cs ds \<Longrightarrow> later ds es \<Longrightarrow> later cs es"
  by (auto simp: later_def)

lemma ctx_grows_trans: "ctx_grows cs ds \<Longrightarrow> ctx_grows ds es \<Longrightarrow> ctx_grows cs es"
  by (auto simp: ctx_grows_def intro: later_trans)

lemma grows_cancel [simp]: "ctx_grows (rn_ctx s) (rn_ctx (cancel_run c s))"
  by (simp add: ctx_grows_def cancel_run_def later_cancel)

lemma grows_step: "ctx_step own cs cs' \<Longrightarrow> ctx_grows cs cs'"
  by (auto simp: ctx_grows_def dest: step_later)

lemma grows_done: "ctx_grows cs cs' \<Longrightarrow> is_done cs c \<Longrightarrow> is_done cs' c"
  by (auto simp: ctx_grows_def is_done_def intro: done_later)

lemma grows_child: "ctx_grows cs cs' \<Longrightarrow> child_of_main E cs c \<Longrightarrow> child_of_main E cs' c"
  by (auto simp: ctx_grows_def child_of_main_def dest: later_children)

lemma grows_deadline:
  "ctx_grows cs cs' \<Longrightarrow> child_of_main E cs c \<Longrightarrow> ctx_deadline (st_contexts cs' ! c) = ctx_deadline (st_contexts cs ! c)"
  by (auto simp: ctx_grows_def child_of_main_def later_def)

lemma child_done: "child_of_main E cs c \<Longrightarrow> is_done cs (mc_main (re_ctxs E)) \<Longrightarrow> is_done cs c"
  by (auto simp: child_of_main_def is_done_def intro: done_parent)

lemma cancelled_child: "child_of_main E (rn_ctx s) c \<Longrightarrow> is_done (rn_ctx (cancel_run c s)) c"
  by (simp add: child_of_main_def is_done_def cancel_run_def done_cancelled)

lemma run_ctxs_child:
  assumes "run_ctxs E cs"
  shows "child_of_main E cs (mc_startup (re_ctxs E))" "child_of_main E cs (mc_readonly (re_ctxs E))"
    "child_of_main E cs (re_srv E)"
  using assms by (simp_all add: run_ctxs_def)

text \<open>The main context is done only by being cancelled, and only the goroutines that are given its cancel function
  do that.\<close>

lemma main_cancelled: "main_ctx E cs \<Longrightarrow> is_done cs (mc_main (re_ctxs E)) \<Longrightarrow> ctx_cancelled (st_contexts cs ! mc_main (re_ctxs E))"
  by (auto simp: main_ctx_def is_done_def ctx_done.simps [of _ _ "mc_main (re_ctxs E)"] ctx_done.simps split: if_splits)

lemma run_ctxs_grows:
  assumes "run_ctxs E cs" and "ctx_grows cs cs'" and "main_ctx E cs'"
  shows "run_ctxs E cs'"
  using assms(1,3) grows_child [OF assms(2)] grows_deadline [OF assms(2)] by (auto simp: run_ctxs_def has_deadline_def)

lemma main_ctx_cancel:
  assumes "main_ctx E cs" and "mc_main (re_ctxs E) \<le> c"
  shows "main_ctx E (cs\<lparr>st_contexts := cancel_ctx c (st_contexts cs)\<rparr>)"
proof -
  obtain b where b: "b < mc_main (re_ctxs E)" "ctx_parent (st_contexts cs ! mc_main (re_ctxs E)) = Some b"
    "st_contexts cs ! b = \<lparr>ctx_parent = None, ctx_deadline = None, ctx_cancelled = False\<rparr>"
    using assms(1) by (auto simp: main_ctx_def)
  have "cancel_ctx c (st_contexts cs) ! b = st_contexts cs ! b" using b(1) assms(2) by (intro cancel_others(1)) simp
  with b assms(1) show ?thesis
    by (auto simp: main_ctx_def cancel_ctx_def nth_list_update intro!: exI [of _ b])
qed

lemma run_ctxs_cancel:
  assumes "run_ctxs E (rn_ctx s)" and "mc_main (re_ctxs E) \<le> c"
  shows "run_ctxs E (rn_ctx (cancel_run c s))"
  using assms main_ctx_cancel [of E "rn_ctx s" c]
  by (intro run_ctxs_grows [OF assms(1) grows_cancel]) (auto simp: run_ctxs_def cancel_run_def)

text \<open>The other contexts of the program, those of the requests, leave the main one alone.\<close>

lemma main_node_stays:
  assumes "main_ctx E cs" and "mc_main (re_ctxs E) < length (st_contexts cs)" and "\<forall>c \<in> own. mc_main (re_ctxs E) < c"
    and st: "ctx_step own cs cs'"
  shows "(\<forall>c \<le> mc_main (re_ctxs E). st_contexts cs' ! c = st_contexts cs ! c) \<and> (\<forall>(t, n) \<in> set (st_watchers cs'). mc_main (re_ctxs E) < n)"
  using st
proof (cases rule: ctx_step.cases)
  case (watcher g)
  then have "mc_main (re_ctxs E) < snd g" using assms(1) by (auto simp: main_ctx_def)
  moreover have "set (remove1 g (st_watchers cs)) \<subseteq> set (st_watchers cs)" by (rule set_remove1_subset)
  ultimately show ?thesis
    using watcher(2) assms(1) by (fastforce simp: main_ctx_def watcher_runs_def cancel_others)
next
  case (cancel c)
  then show ?thesis using assms by (auto simp: main_ctx_def cancel_others)
qed (use assms(1,2) in \<open>auto simp: main_ctx_def ctx_ops nth_append Let_def split: if_splits\<close>)

lemma main_ctx_step:
  assumes "main_ctx E cs" and "mc_main (re_ctxs E) < length (st_contexts cs)" and "\<forall>c \<in> own. mc_main (re_ctxs E) < c"
    and "ctx_step own cs cs'"
  shows "main_ctx E cs'"
proof -
  note m = main_node_stays [OF assms]
  obtain b where "b < mc_main (re_ctxs E)" "ctx_parent (st_contexts cs ! mc_main (re_ctxs E)) = Some b"
    "st_contexts cs ! b = \<lparr>ctx_parent = None, ctx_deadline = None, ctx_cancelled = False\<rparr>"
    using assms(1) by (auto simp: main_ctx_def)
  then show ?thesis using m assms(1) by (auto simp: main_ctx_def intro!: exI [of _ b])
qed

lemma request_ctxs_later: "run_ctxs E cs \<Longrightarrow> mc_main (re_ctxs E) < length (st_contexts cs) \<and> (\<forall>c \<in> request_ctxs E. mc_main (re_ctxs E) < c)"
  by (auto simp: run_ctxs_def child_of_main_def request_ctxs_def)

lemma run_ctxs_step:
  assumes "run_ctxs E cs" and "ctx_step (request_ctxs E) cs cs'"
  shows "run_ctxs E cs'"
  using main_ctx_step [of E cs "request_ctxs E" cs'] request_ctxs_later [OF assms(1)] assms
  by (intro run_ctxs_grows [OF assms(1) grows_step [OF assms(2)]]) (simp add: run_ctxs_def)

text \<open>What \<open>main\<close> makes are such contexts, whatever happened to other contexts before the supervisor began.\<close>

lemma main_makes_run_ctxs:
  assumes "main_contexts (program_start now) = (m, s1)" and "steps (ctx_step own) s1 s2" and "\<forall>c \<in> own. 3 < c"
    and "start_server_context m s2 = (srv, s3)" and "re_ctxs E = m" and "re_srv E = srv"
  shows "run_ctxs E s3"
proof -
  from assms(1) have m: "mc_main m = 1" "mc_startup m = 2" "mc_readonly m = 3" and s1: "length (st_contexts s1) = 4"
    "ctx_parent (st_contexts s1 ! 2) = Some 1" "ctx_parent (st_contexts s1 ! 3) = Some 1"
    "ctx_deadline (st_contexts s1 ! 2) \<noteq> None" "ctx_deadline (st_contexts s1 ! 3) \<noteq> None"
    by (auto simp: main_contexts_eq)
  have "main_ctx E s1" using assms(1) by (auto simp: main_ctx_def assms(5) main_contexts_eq intro!: exI [of _ 0])
  with assms(2) have "main_ctx E s2 \<and> later (st_contexts s1) (st_contexts s2)"
  proof (induction rule: reachable.induct)
    case (after_step s s')
    then have "main_ctx E s" "4 \<le> length (st_contexts s)" and l: "later (st_contexts s1) (st_contexts s)"
      using s1(1) by (auto simp: later_def)
    then have "main_ctx E s'"
      using after_step.hyps(2) assms(3) by (intro main_ctx_step [of E s own s']) (fastforce simp: m assms(5))+
    then show ?case using l later_trans step_later [OF after_step.hyps(2)] by blast
  qed (simp add: later_refl)
  then have main: "main_ctx E s2" and l2: "later (st_contexts s1) (st_contexts s2)" by auto
  have srv: "srv = length (st_contexts s2)" and s3: "s3 = s2\<lparr>st_contexts := st_contexts s2 @ [\<lparr>ctx_parent = Some 1, ctx_deadline = None, ctx_cancelled = False\<rparr>]\<rparr>"
    using assms(4) by (auto simp: start_server_context_def WithCancel_def m(1))
  have l3: "4 \<le> srv" "later (st_contexts s2) (st_contexts s3)" using l2 s1(1) by (simp_all add: later_def srv s3 nth_append)
  have node: "c < length (st_contexts s3) \<and> ctx_parent (st_contexts s3 ! c) = ctx_parent (st_contexts s1 ! c) \<and>
      ctx_deadline (st_contexts s3 ! c) = ctx_deadline (st_contexts s1 ! c)" if "c < 4" for c
    using that l2 l3 s1(1) by (auto simp: later_def)
  have "main_ctx E s3" using main l3(1) by (auto simp: main_ctx_def assms(5) m(1) s3 nth_append srv)
  then show ?thesis
    using s1 node [of 2] node [of 3] l3(1) by (simp add: run_ctxs_def child_of_main_def has_deadline_def assms(5,6) m srv s3)
qed

text \<open>A turn of the loop of the supervisor changes only the contexts, by cancelling the main one, whether to look
  at the processes, and when to go on.\<close>

lemma scan_keeps:
  "(\<And>w. P w \<Longrightarrow> P (sp_cancelMain ops w)) \<Longrightarrow> P w \<Longrightarrow> P (snd (scan ops sts check w))"
  by (induction ops sts check w rule: scan.induct) auto

definition main_only :: "run_env \<Rightarrow> ctx_state \<Rightarrow> ctx_state \<Rightarrow> bool" where
  "main_only E cs cs' \<longleftrightarrow> ctx_grows cs cs' \<and> st_now cs' = st_now cs \<and> (run_ctxs E cs \<longrightarrow> run_ctxs E cs')"

lemma scan_run:
  fixes E sts check s defines "t \<equiv> snd (scan (run_super E) sts check s)"
  shows "main_only E (rn_ctx s) (rn_ctx t) \<and> t = s\<lparr>rn_ctx := rn_ctx t\<rparr>"
  unfolding t_def
proof (rule scan_keeps)
  fix w assume w: "main_only E (rn_ctx s) (rn_ctx w) \<and> w = s\<lparr>rn_ctx := rn_ctx w\<rparr>"
  let ?w = "cancel_run (mc_main (re_ctxs E)) w"
  have "main_only E (rn_ctx s) (rn_ctx ?w)"
    using w ctx_grows_trans grows_cancel run_ctxs_cancel [of E w "mc_main (re_ctxs E)"] unfolding main_only_def cancel_run_sel by blast
  moreover have "?w = s\<lparr>rn_ctx := rn_ctx ?w\<rparr>" using w by (cases s, cases w) (simp add: cancel_run_def)
  ultimately show "main_only E (rn_ctx s) (rn_ctx (sp_cancelMain (run_super E) w)) \<and>
      sp_cancelMain (run_super E) w = s\<lparr>rn_ctx := rn_ctx (sp_cancelMain (run_super E) w)\<rparr>"
    by (simp add: run_super_def)
qed (simp add: main_only_def)

lemma watch_round_changes:
  "\<exists>cs check. main_only E (rn_ctx s) cs \<and>
     watch_round E s = s\<lparr>rn_ctx := cs, rn_check := check, rn_phase := Resting (run_now s + 1 * Second)\<rparr>"
proof -
  obtain check t where r: "(if rn_check s then scan (run_super E) (proc_states s) (rn_check s) s else (rn_check s, s)) = (check, t)"
    by fastforce
  then obtain cs where cs: "main_only E (rn_ctx s) cs" "t = s\<lparr>rn_ctx := cs\<rparr>"
  proof (cases "rn_check s")
    case True
    with r have t: "t = snd (scan (run_super E) (proc_states s) (rn_check s) s)" by simp
    from scan_run [of E s "proc_states s" "rn_check s"] show ?thesis unfolding t [symmetric] by (auto intro: that)
  next
    case False
    with r show ?thesis by (intro that [of "rn_ctx s"]) (simp_all add: main_only_def)
  qed
  moreover from this(1) have "st_now cs = run_now s" by (simp add: main_only_def)
  ultimately show ?thesis using r by (auto simp: watch_round_def)
qed

subsection \<open>The invariant\<close>

definition proc_ok :: "bool \<Rightarrow> proc \<Rightarrow> bool" where
  "proc_ok srv p \<longleftrightarrow> (pc_waited p \<longrightarrow> pc_ProcessState p \<noteq> None) \<and> (pc_signalled p \<longrightarrow> srv)"

definition reports :: "run_env \<Rightarrow> run_state \<Rightarrow> string option \<Rightarrow> bool" where
  "reports E s e \<longleftrightarrow> startup_done E s \<and> srv_done E s \<and> list_all pc_waited (rn_procs s) \<and> e = shutdown_error (proc_states s)"

definition phase_ok :: "run_env \<Rightarrow> run_state \<Rightarrow> bool" where
  "phase_ok E s \<longleftrightarrow>
     (case rn_phase s of
        Starting cmds \<Rightarrow> True
      | AwaitStartup p \<Rightarrow> (case p of Asleep w \<Rightarrow> w \<le> run_now s + 500 * 1000000 | _ \<Rightarrow> True)
      | Watching \<Rightarrow> startup_done E s
      | Resting w \<Rightarrow> startup_done E s \<and> w \<le> run_now s + 1 * Second
      | AwaitAll \<Rightarrow> startup_done E s \<and> srv_done E s
      | Reporting e \<Rightarrow> reports E s e
      | Reported e \<Rightarrow> reports E s e \<and> rn_stop s = Received e)"

definition stop_ok :: "run_env \<Rightarrow> run_state \<Rightarrow> bool" where
  "stop_ok E s \<longleftrightarrow>
     (case rn_stop s of
        NotBegun \<Rightarrow> rn_begun s = None
      | AwaitReport \<Rightarrow> rn_begun s \<noteq> None \<and> srv_done E s
      | Received e \<Rightarrow> rn_begun s \<noteq> None \<and> rn_phase s = Reported e)"

definition exit_ok :: "run_env \<Rightarrow> run_state \<Rightarrow> bool" where
  "exit_ok E s \<longleftrightarrow>
     (case rn_exit s of
        Some (CleanedUp code) \<Rightarrow>
          (\<exists>t. rn_begun s = Some t \<and> re_exits E (run_now s - t) (\<exists>e. rn_stop s = Received e) code)
      | _ \<Rightarrow> True)"

definition run_inv :: "run_env \<Rightarrow> run_state \<Rightarrow> bool" where
  "run_inv E s \<longleftrightarrow>
     run_ctxs E (rn_ctx s) \<and> list_all (proc_ok (srv_done E s)) (rn_procs s) \<and> phase_ok E s \<and> stop_ok E s \<and> exit_ok E s"

lemmas stop_ops = startup_completed_def replica_completed_def startup_answered_def replica_answered_def listen_returned_def
  stop_engine_servers_def exit_main_def poll_sleep_def

lemmas run_oks = run_inv_def phase_ok_def stop_ok_def exit_ok_def reports_def proc_states_def

lemmas run_splits = supervisor_phase.splits poll.splits stop_op.splits

lemma run_inv_grows:
  assumes "run_inv E s" and "rn_exit s = None" and "ctx_grows (rn_ctx s) cs" and "run_ctxs E cs"
  shows "run_inv E (s\<lparr>rn_ctx := cs\<rparr>)"
proof -
  have "proc_ok (srv_done E s) p \<Longrightarrow> proc_ok (is_done cs (re_srv E)) p" for p
    using grows_done [OF assms(3), of "re_srv E"] by (auto simp: proc_ok_def)
  moreover have "run_now s \<le> st_now cs" using assms(3) by (simp add: ctx_grows_def)
  ultimately show ?thesis
    using assms(1,2,4) grows_done [OF assms(3)]
    by (auto simp: run_oks list_all_iff split: run_splits)
qed

lemma run_inv_cancel: "run_inv E s \<Longrightarrow> rn_exit s = None \<Longrightarrow> mc_main (re_ctxs E) \<le> c \<Longrightarrow> run_inv E (cancel_run c s)"
  using run_inv_grows [of E s "rn_ctx (cancel_run c s)"] run_ctxs_cancel [of E s c] grows_cancel [of s c]
  by (simp add: cancel_run_def run_inv_def)

lemma run_inv_child:
  assumes "run_inv E s"
  shows "child_of_main E (rn_ctx s) (mc_startup (re_ctxs E))" "child_of_main E (rn_ctx s) (mc_readonly (re_ctxs E))"
    "child_of_main E (rn_ctx s) (re_srv E)"
  using assms run_ctxs_child by (auto simp: run_inv_def)

lemma list_all_update: "list_all P xs \<Longrightarrow> (i < length xs \<Longrightarrow> P x) \<Longrightarrow> list_all P (xs[i := x])"
  by (cases "i < length xs") (auto simp: list_all_length nth_list_update)

text \<open>A change of one process: what it was and what it becomes is all right, and it has not been waited for or
  its state stays the same.\<close>

lemma run_inv_proc:
  assumes "run_inv E s" and "rn_exit s = None" and "i < length (rn_procs s)"
    and "proc_ok (srv_done E s) (f (rn_procs s ! i))"
    and "\<not> pc_waited (rn_procs s ! i) \<or>
      pc_waited (f (rn_procs s ! i)) \<and> pc_ProcessState (f (rn_procs s ! i)) = pc_ProcessState (rn_procs s ! i)"
  shows "run_inv E (set_proc i f s)"
proof -
  let ?procs = "(rn_procs s)[i := f (rn_procs s ! i)]"
  have "list_all pc_waited ?procs \<and> map pc_ProcessState ?procs = map pc_ProcessState (rn_procs s)"
    if w: "list_all pc_waited (rn_procs s)"
  proof -
    have "pc_waited (rn_procs s ! i)" using w assms(3) by (simp add: list_all_length)
    with assms(5) have f: "pc_waited (f (rn_procs s ! i))" "pc_ProcessState (f (rn_procs s ! i)) = pc_ProcessState (rn_procs s ! i)"
      by simp_all
    then have "map pc_ProcessState ?procs = map pc_ProcessState (rn_procs s)"
      using assms(3) by (simp add: map_update list_update_same_conv)
    with w f(1) show ?thesis by (simp add: list_all_update)
  qed
  then show ?thesis
    using assms(1,2,4)
    by (auto simp: run_oks set_proc_def list_all_update split: run_splits)
qed

lemma proc_okI: "run_inv E s \<Longrightarrow> i < length (rn_procs s) \<Longrightarrow> proc_ok (srv_done E s) (rn_procs s ! i)"
  by (simp add: run_inv_def list_all_length)

lemma own_step_inv:
  assumes "run_inv E s" and "own_step E s s'"
  shows "run_inv E s'"
  using assms(2)
proof (cases rule: own_step.cases)
  case watch_turn
  obtain cs check where w: "main_only E (rn_ctx s) cs"
    "watch_round E s = s\<lparr>rn_ctx := cs, rn_check := check, rn_phase := Resting (run_now s + 1 * Second)\<rparr>"
    using watch_round_changes by blast
  have "run_inv E (s\<lparr>rn_ctx := cs\<rparr>)"
    using w(1) assms(1) by (intro run_inv_grows assms(1) watch_turn(2)) (auto simp: main_only_def run_inv_def)
  moreover have "st_now cs = run_now s" using w(1) by (simp add: main_only_def)
  ultimately show ?thesis
    using watch_turn(2,3) unfolding watch_turn(1) w(2) by (auto simp: run_oks split: stop_op.splits)
next
  case (signal i)
  then show ?thesis
    using proc_okI [OF assms(1), of i] by (auto intro!: run_inv_proc assms(1) simp: proc_ok_def)
next
  case (waited i)
  then show ?thesis
    using proc_okI [OF assms(1), of i] by (auto intro!: run_inv_proc assms(1) simp: proc_ok_def)
next
  case (start_ok cmd cmds)
  then show ?thesis
    using assms(1) by (auto simp: run_oks start_process_def proc_ok_def split: stop_op.splits)
next
  case (report e)
  then show ?thesis using assms(1) by (auto simp: run_oks)
qed (use assms(1) in \<open>auto simp: run_oks exit_main_def poll_sleep_def split: run_splits\<close>)

lemma event_step_inv:
  assumes "run_inv E s" and "event_step E s s'"
  shows "run_inv E s'"
proof -
  note child = run_inv_child [OF assms(1)]
  have after: "mc_main (re_ctxs E) \<le> mc_startup (re_ctxs E)" "mc_main (re_ctxs E) \<le> mc_readonly (re_ctxs E)"
    "mc_main (re_ctxs E) \<le> re_srv E" using child by (auto simp: child_of_main_def)
  note cancel = run_inv_cancel [OF assms(1)]
  from assms(2) show ?thesis
  proof (cases rule: event_step.cases)
    case (startup_answer code)
    then show ?thesis
      using assms(1) cancel [OF startup_answer(2) after(1)] cancelled_child [OF child(1)]
      by (auto simp: run_oks startup_answered_def startup_completed_def split: stop_op.splits)
  next
    case (replica_answer code)
    then show ?thesis
      using assms(1) cancel [OF replica_answer(2) after(2)]
      by (auto simp: run_oks replica_answered_def replica_completed_def split: run_splits)
  next
    case (listen_returns failed)
    then show ?thesis
      using assms(1) cancel [OF listen_returns(2) order_refl] by (auto simp: run_oks listen_returned_def split: run_splits)
  next
    case stop_begins
    then show ?thesis
      using cancel [OF stop_begins(2) after(3)] cancelled_child [OF child(3)]
      by (auto simp: run_oks stop_engine_servers_def split: supervisor_phase.splits poll.splits)
  qed (use assms(1) in \<open>auto simp: run_oks exit_main_def split: run_splits\<close>)
qed

lemma env_step_inv:
  assumes "run_inv E s" and "env_step E s s'"
  shows "run_inv E s'"
  using assms(2)
proof (cases rule: env_step.cases)
  case (process_ends i st)
  then show ?thesis
    using proc_okI [OF assms(1), of i] by (auto intro!: run_inv_proc assms(1) simp: proc_ok_def)
next
  case (world cs)
  have "run_ctxs E cs" using run_ctxs_step [OF _ world(3)] assms(1) by (simp add: run_inv_def)
  with run_inv_grows [OF assms(1) world(2) grows_step [OF world(3)]] show ?thesis unfolding world(1) .
qed (use assms(1) in \<open>auto simp: run_oks split: run_splits\<close>)

lemma run_start_inv: "run_start E cmds s \<Longrightarrow> run_inv E s"
  by (simp add: run_start_def run_oks)

lemma run_step_inv: "run_inv E s \<Longrightarrow> run_step E s s' \<Longrightarrow> run_inv E s'"
  by (auto simp: run_step_def intro: own_step_inv event_step_inv env_step_inv)

interpretation running: invariant "run_step E" "run_inv E" "run_start E cmds" for E cmds
  by unfold_locales (rule run_step_inv, assumption+, rule run_start_inv)

text \<open>The processes are those of the commands, in their order.\<close>

definition pending :: "supervisor_phase \<Rightarrow> command list" where
  "pending ph = (case ph of Starting cmds \<Rightarrow> cmds | _ \<Rightarrow> [])"

definition in_line :: "command list \<Rightarrow> run_state \<Rightarrow> bool" where
  "in_line cmds s \<longleftrightarrow> map pc_command (rn_procs s) @ pending (rn_phase s) = cmds"

lemma commands_update: "pc_command (f (ps ! i)) = pc_command (ps ! i) \<Longrightarrow> map pc_command (ps[i := f (ps ! i)]) = map pc_command ps"
  by (cases "i < length ps") (simp_all add: map_update list_update_same_conv list_update_beyond)

lemma in_line_step: "in_line cmds s \<Longrightarrow> run_step E s s' \<Longrightarrow> in_line cmds s'"
  unfolding run_step_def
  using watch_round_changes [of E s]
  by (elim disjE own_stepE event_stepE env_stepE)
    (auto simp: in_line_def pending_def start_process_def set_proc_def commands_update stop_ops)

interpretation commands: invariant "run_step E" "in_line cmds" "run_start E cmds" for E cmds
  by unfold_locales (rule in_line_step, assumption+, simp add: run_start_def in_line_def pending_def)

end
