(* ===== verification/Shutdown_Properties.thy ===== *)
theory Shutdown_Properties
  imports Shutdown
begin

text \<open>
  Properties of the running program of \<open>src/main.go\<close> and \<open>src/graphql_engine_servers.go\<close>: why it shuts down by
  itself, what an exit leaves behind, that a shutdown ends, what it can be waiting for, that it completes,
  and that a log of the replica which nobody reads holds it up. They are applied to runs of a concrete
  program at the end.
\<close>

subsection \<open>Why the program shuts down by itself\<close>

lemma watch_round_idle:
  "\<not> rn_check s \<or> list_all (\<lambda>st. st = None) (proc_states s) \<Longrightarrow> rn_ctx (watch_round E s) = rn_ctx s"
  by (auto simp: watch_round_def scan_unended)

text \<open>Only two steps cancel the main context: the return of \<open>Listen\<close> and a turn of the supervisor.\<close>

lemma main_stays:
  assumes "run_inv E s" and "run_step E s s'" and "\<not> (rn_listening s \<and> s' = listen_returned E True s)"
    and "\<not> (rn_phase s = Watching \<and> \<not> srv_done E s \<and> s' = watch_round E s)"
  shows "st_contexts (rn_ctx s') ! mc_main (re_ctxs E) = st_contexts (rn_ctx s) ! mc_main (re_ctxs E)"
proof -
  note child = run_inv_child [OF assms(1)]
  have cancel: "st_contexts (rn_ctx (cancel_run c s)) ! mc_main (re_ctxs E) = st_contexts (rn_ctx s) ! mc_main (re_ctxs E)"
    if "child_of_main E (rn_ctx s) c" for c
    using that by (simp add: cancel_run_def child_of_main_def cancel_others)
  from assms(2) consider "own_step E s s'" | "event_step E s s'" | "env_step E s s'" by (auto simp: run_step_def)
  then show ?thesis
  proof cases
    case 1
    then show ?thesis
      by (cases rule: own_step.cases) (use assms(4) in \<open>simp_all add: start_process_def set_proc_def exit_main_def\<close>)
  next
    case 2
    then show ?thesis
    proof (cases rule: event_step.cases)
      case (listen_returns failed)
      then show ?thesis using assms(3) by (cases failed) (simp_all add: listen_returned_def)
    qed (use cancel child in \<open>simp_all add: startup_answered_def replica_answered_def startup_completed_def replica_completed_def
        stop_engine_servers_def exit_main_def\<close>)
  next
    case 3
    then show ?thesis
    proof (cases rule: env_step.cases)
      case (world cs)
      have c: "run_ctxs E (rn_ctx s)" using assms(1) by (simp add: run_inv_def)
      then have "main_ctx E (rn_ctx s)" by (simp add: run_ctxs_def)
      from main_node_stays [OF this _ _ world(3)] request_ctxs_later [OF c] world(1) show ?thesis by simp
    qed (simp_all add: set_proc_def)
  qed
qed

text \<open>C13. The only reasons for which the program shuts itself down: a step after which the main context is done, and was
  not before, is the return of \<open>Listen\<close> with an error, or a turn of the supervisor, watching after the startup is
  over, in which it first looks at processes of which one has ended. All the other contexts of \<open>main\<close> are done
  then. So a process that dies during the startup goes unnoticed until the startup is over.\<close>

theorem self_shutdown_cause:
  assumes "reachable (run_start E cmds) (run_step E) s" and "run_step E s s'" and "\<not> main_done E s" and "main_done E s'"
  shows "(rn_listening s \<and> s' = listen_returned E True s \<or>
      rn_phase s = Watching \<and> startup_done E s \<and> \<not> srv_done E s \<and> rn_check s \<and>
        (\<exists>p \<in> set (rn_procs s). pc_ProcessState p \<noteq> None) \<and> s' = watch_round E s) \<and>
    startup_done E s' \<and> readonly_done E s' \<and> srv_done E s'"
proof -
  note inv = running.inv_reachable [OF assms(1)]
  then have inv': "run_inv E s'" using assms(2) by (rule run_step_inv)
  from inv' have "main_ctx E (rn_ctx s')" by (simp add: run_inv_def run_ctxs_def)
  from main_cancelled [OF this assms(4)] have c: "ctx_cancelled (st_contexts (rn_ctx s') ! mc_main (re_ctxs E))" .
  have "mc_main (re_ctxs E) < length (st_contexts (rn_ctx s))" using run_inv_child [OF inv] by (simp add: child_of_main_def)
  then have "\<not> ctx_cancelled (st_contexts (rn_ctx s) ! mc_main (re_ctxs E))"
    using assms(3) by (simp add: is_done_def ctx_done.simps [of _ _ "mc_main (re_ctxs E)"])
  with c have "st_contexts (rn_ctx s') ! mc_main (re_ctxs E) \<noteq> st_contexts (rn_ctx s) ! mc_main (re_ctxs E)" by auto
  then have "rn_listening s \<and> s' = listen_returned E True s \<or> rn_phase s = Watching \<and> \<not> srv_done E s \<and> s' = watch_round E s"
    using main_stays [OF inv assms(2)] by blast
  moreover have "startup_done E s \<and> rn_check s \<and> (\<exists>p \<in> set (rn_procs s). pc_ProcessState p \<noteq> None)"
    if w: "rn_phase s = Watching" "s' = watch_round E s"
  proof -
    have "rn_ctx (watch_round E s) \<noteq> rn_ctx s" using assms(3,4) w(2) by auto
    then have "rn_check s \<and> \<not> list_all (\<lambda>st. st = None) (proc_states s)" using watch_round_idle [of s E] by blast
    with w(1) inv show ?thesis by (auto simp: run_inv_def phase_ok_def proc_states_def list_all_iff)
  qed
  ultimately show ?thesis using child_done [OF run_inv_child(1) [OF inv'] assms(4)] child_done [OF run_inv_child(2) [OF inv'] assms(4)]
      child_done [OF run_inv_child(3) [OF inv'] assms(4)] by blast
qed

subsection \<open>What an exit leaves behind\<close>

text \<open>Documented behaviour of the library: it does not exit before the operations have returned, or before
  its timeout.\<close>

definition exit_law :: "run_env \<Rightarrow> bool" where
  "exit_law E \<longleftrightarrow> (\<forall>elapsed received code. re_exits E elapsed received code \<longrightarrow> received \<or> GRACEFUL_SHUTDOWN_TIMEOUT \<le> elapsed)"

lemma waited_ended: "run_inv E s \<Longrightarrow> list_all pc_waited (rn_procs s) \<Longrightarrow> list_all (\<lambda>p. pc_ProcessState p \<noteq> None) (rn_procs s)"
  by (simp add: run_inv_def proc_ok_def list_all_length)

lemma received_reports: "run_inv E s \<Longrightarrow> rn_stop s = Received e \<Longrightarrow> rn_phase s = Reported e \<and> reports E s e"
  by (auto simp: run_inv_def phase_ok_def stop_ok_def)

text \<open>C7. No process is left behind by an ordinary exit: when \<open>main\<close> has exited with the code that the clean-up handed it,
  all the processes have been started and have ended, and the clean-up got the error of how they ended, unless
  the shutdown has taken the 30 seconds it has. The other ends of the program, a process that cannot be
  started, a groupcache server that fails and a handler that panics, leave the processes as they are.\<close>

theorem exit_leaves_no_process:
  assumes "reachable (run_start E cmds) (run_step E) s" and "exit_law E" and "rn_exit s = Some (CleanedUp code)"
  shows "(\<exists>t. rn_begun s = Some t \<and> t + 30 * Second \<le> run_now s) \<or>
    map pc_command (rn_procs s) = cmds \<and> list_all (\<lambda>p. pc_ProcessState p \<noteq> None) (rn_procs s) \<and>
      rn_stop s = Received (shutdown_error (map pc_ProcessState (rn_procs s)))"
proof -
  note inv = running.inv_reachable [OF assms(1)] and line = commands.inv_reachable [OF assms(1)]
  have received: "?thesis" if e: "rn_stop s = Received e" for e
    using received_reports [OF inv e] e line waited_ended [OF inv]
    by (auto simp: reports_def in_line_def pending_def proc_states_def)
  from inv assms(3) obtain t where t: "rn_begun s = Some t" "re_exits E (run_now s - t) (\<exists>e. rn_stop s = Received e) code"
    by (auto simp: run_inv_def exit_ok_def)
  then have "(\<exists>e. rn_stop s = Received e) \<or> GRACEFUL_SHUTDOWN_TIMEOUT \<le> run_now s - t"
    using assms(2) by (auto simp: exit_law_def)
  with received t(1) show ?thesis by (auto simp: GRACEFUL_SHUTDOWN_TIMEOUT_def)
qed

subsection \<open>The end of the shutdown\<close>

text \<open>What is left to do. A loop that waits for a server has what is left until the deadline of its context:
  every round of it takes half a second.\<close>

definition deadline_of :: "ctx_state \<Rightarrow> nat \<Rightarrow> int" where
  "deadline_of cs c = (case ctx_deadline (st_contexts cs ! c) of None \<Rightarrow> 0 | Some t \<Rightarrow> t)"

fun poll_rank :: "int \<Rightarrow> int \<Rightarrow> poll \<Rightarrow> nat" where
  "poll_rank deadline now Looking = 3 * nat (deadline - now) + 3"
| "poll_rank deadline now (Asleep w) = 3 * nat (deadline - w) + 5"
| "poll_rank deadline now Asking = 3 * nat (deadline - now) + 4"

fun replica_rank :: "int \<Rightarrow> int \<Rightarrow> poll option \<Rightarrow> nat" where
  "replica_rank deadline now None = 0"
| "replica_rank deadline now (Some p) = poll_rank deadline now p"

fun phase_rank :: "int \<Rightarrow> int \<Rightarrow> supervisor_phase \<Rightarrow> nat" where
  "phase_rank deadline now (Starting cmds) = 3 * nat (deadline - now) + 6"
| "phase_rank deadline now (AwaitStartup p) = poll_rank deadline now p + 1"
| "phase_rank deadline now (Resting w) = 4"
| "phase_rank deadline now Watching = 3"
| "phase_rank deadline now AwaitAll = 2"
| "phase_rank deadline now (Reporting e) = 1"
| "phase_rank deadline now (Reported e) = 0"

fun stop_rank :: "stop_op \<Rightarrow> nat" where
  "stop_rank NotBegun = 2"
| "stop_rank AwaitReport = 1"
| "stop_rank (Received e) = 0"

definition run_rank :: "run_env \<Rightarrow> run_state \<Rightarrow> nat" where
  "run_rank E s =
     phase_rank (deadline_of (rn_ctx s) (mc_startup (re_ctxs E))) (run_now s) (rn_phase s) +
     replica_rank (deadline_of (rn_ctx s) (mc_readonly (re_ctxs E))) (run_now s) (rn_replica s) +
     length (filter (\<lambda>p. \<not> pc_waited p) (rn_procs s)) + length (filter (\<lambda>p. \<not> pc_signalled p) (rn_procs s)) +
     log_rank (rn_log s) + stop_rank (rn_stop s) + (if rn_listening s then 1 else 0) + (if rn_exit s = None then 1 else 0)"

lemma deadline_passes: "child_of_main E cs c \<Longrightarrow> has_deadline cs c \<Longrightarrow> \<not> is_done cs c \<Longrightarrow> st_now cs < deadline_of cs c"
  by (auto simp: child_of_main_def has_deadline_def is_done_def deadline_of_def ctx_done.simps [of _ _ c] split: option.splits)

lemma poll_rank_sleep: "now < deadline \<Longrightarrow> poll_rank deadline now (Asleep (now + 500 * 1000000)) < poll_rank deadline now Looking"
  by simp

lemma poll_rank_ask: "w \<le> now \<Longrightarrow> poll_rank deadline now Asking < poll_rank deadline now (Asleep w)"
  by simp

lemma poll_rank_time: "now \<le> now' \<Longrightarrow> poll_rank deadline now' p \<le> poll_rank deadline now p"
  by (cases p) auto

lemma replica_rank_time: "now \<le> now' \<Longrightarrow> replica_rank deadline now' r \<le> replica_rank deadline now r"
  using poll_rank_time by (cases r) auto

lemma phase_rank_time: "now \<le> now' \<Longrightarrow> phase_rank deadline now' ph \<le> phase_rank deadline now ph"
  using poll_rank_time by (cases ph) auto

lemma filter_update:
  "i < length xs \<Longrightarrow> length (filter P (xs[i := x])) + (if P (xs ! i) then 1 else 0) = length (filter P xs) + (if P x then 1 else 0)"
proof (induction xs arbitrary: i)
  case (Cons y ys)
  then show ?case by (cases i) auto
qed simp

lemma own_step_decreases:
  assumes "run_inv E s" and "own_step E s s'" and "srv_done E s"
  shows "run_rank E s' < run_rank E s"
  using assms(2)
proof (cases rule: own_step.cases)
  case (signal i)
  then show ?thesis
    using filter_update [OF signal(3), of "\<lambda>p. \<not> pc_signalled p" "(rn_procs s ! i)\<lparr>pc_signalled := True\<rparr>"]
      filter_update [OF signal(3), of "\<lambda>p. \<not> pc_waited p" "(rn_procs s ! i)\<lparr>pc_signalled := True\<rparr>"]
    by (simp add: run_rank_def set_proc_def)
next
  case (waited i)
  then show ?thesis
    using filter_update [OF waited(3), of "\<lambda>p. \<not> pc_signalled p" "(rn_procs s ! i)\<lparr>pc_waited := True\<rparr>"]
      filter_update [OF waited(3), of "\<lambda>p. \<not> pc_waited p" "(rn_procs s ! i)\<lparr>pc_waited := True\<rparr>"]
    by (simp add: run_rank_def set_proc_def)
next
  case (log_moves l)
  then have "log_rank l < log_rank (rn_log s)" using log_rank_decreases [OF log_moves(3)] by (simp add: log_rank_def)
  then show ?thesis using log_moves(1) by (simp add: run_rank_def)
next
  case startup_sleeps
  then have "run_now s < deadline_of (rn_ctx s) (mc_startup (re_ctxs E))"
    using deadline_passes run_inv_child(1) [OF assms(1)] assms(1) by (auto simp: run_inv_def run_ctxs_def)
  from poll_rank_sleep [OF this] show ?thesis using startup_sleeps by (simp add: run_rank_def poll_sleep_def del: poll_rank.simps)
next
  case replica_sleeps
  then have "run_now s < deadline_of (rn_ctx s) (mc_readonly (re_ctxs E))"
    using deadline_passes run_inv_child(2) [OF assms(1)] assms(1) by (auto simp: run_inv_def run_ctxs_def)
  from poll_rank_sleep [OF this] show ?thesis using replica_sleeps by (simp add: run_rank_def poll_sleep_def del: poll_rank.simps)
qed (use assms(3) in \<open>auto simp: run_rank_def exit_main_def\<close>)

lemma deadline_of_cancel [simp]: "deadline_of (rn_ctx (cancel_run c s)) d = deadline_of (rn_ctx s) d"
  by (simp add: deadline_of_def cancel_run_def cancel_ctx_def nth_list_update)

lemma event_step_decreases: "event_step E s s' \<Longrightarrow> run_rank E s' < run_rank E s"
  by (erule event_stepE) (auto simp: run_rank_def stop_ops)

lemma env_step_rank:
  assumes "run_inv E s" and "env_step E s s'" and "lg_written (rn_log s') = lg_written (rn_log s)"
  shows "run_rank E s' \<le> run_rank E s"
  using assms(2)
proof (cases rule: env_step.cases)
  case (process_ends i st)
  then show ?thesis
    using filter_update [OF process_ends(3), of "\<lambda>p. \<not> pc_signalled p" "(rn_procs s ! i)\<lparr>pc_ProcessState := Some st\<rparr>"]
      filter_update [OF process_ends(3), of "\<lambda>p. \<not> pc_waited p" "(rn_procs s ! i)\<lparr>pc_ProcessState := Some st\<rparr>"]
    by (simp add: run_rank_def set_proc_def)
next
  case (replica_writes ls)
  with assms(3) have "ls = []" by simp
  then show ?thesis using replica_writes(1) by simp
next
  case (world cs)
  note g = grows_step [OF world(3)]
  have now: "run_now s \<le> st_now cs" using g by (simp add: ctx_grows_def)
  have "deadline_of cs c = deadline_of (rn_ctx s) c" if "child_of_main E (rn_ctx s) c" for c
    using grows_deadline [OF g that] by (simp add: deadline_of_def)
  then have same: "deadline_of cs (mc_startup (re_ctxs E)) = deadline_of (rn_ctx s) (mc_startup (re_ctxs E))"
    "deadline_of cs (mc_readonly (re_ctxs E)) = deadline_of (rn_ctx s) (mc_readonly (re_ctxs E))"
    using run_inv_child [OF assms(1)] by blast+
  show ?thesis
    using phase_rank_time [OF now, of "deadline_of (rn_ctx s) (mc_startup (re_ctxs E))" "rn_phase s"]
      replica_rank_time [OF now, of "deadline_of (rn_ctx s) (mc_readonly (re_ctxs E))" "rn_replica s"]
    by (simp add: run_rank_def world(1) same add_mono)
qed

text \<open>The rest of the world goes on, but the replica writes nothing more.\<close>

definition quiet_step :: "run_env \<Rightarrow> run_state \<Rightarrow> run_state \<Rightarrow> bool" where
  "quiet_step E s s' \<longleftrightarrow> env_step E s s' \<and> lg_written (rn_log s') = lg_written (rn_log s)"

definition shutting_down :: "run_env \<Rightarrow> command list \<Rightarrow> run_state \<Rightarrow> bool" where
  "shutting_down E cmds s \<longleftrightarrow> reachable (run_start E cmds) (run_step E) s \<and> srv_done E s"

lemma quiet_steps:
  "steps (quiet_step E) s t \<Longrightarrow> shutting_down E cmds s \<Longrightarrow> shutting_down E cmds t \<and> run_rank E t \<le> run_rank E s"
proof (induction rule: reachable.induct)
  case (after_step t u)
  then have t: "shutting_down E cmds t" "run_rank E t \<le> run_rank E s" and q: "env_step E t u" "lg_written (rn_log u) = lg_written (rn_log t)"
    by (auto simp: quiet_step_def)
  have inv: "run_inv E t" using t(1) by (auto simp: shutting_down_def intro: running.inv_reachable)
  from q(1) have "srv_done E u"
    using t(1) by (cases rule: env_step.cases) (auto simp: shutting_down_def set_proc_def intro: grows_done [OF grows_step])
  moreover have "reachable (run_start E cmds) (run_step E) u" using env_next t(1) q(1) unfolding shutting_down_def by blast
  moreover have "run_rank E u \<le> run_rank E s" using env_step_rank [OF inv q] t(2) by simp
  ultimately show ?case by (simp add: shutting_down_def)
qed simp

lemma program_steps_end:
  "wfp (\<lambda>s' s. shutting_down E cmds s \<and> (\<exists>t. steps (quiet_step E) s t \<and> (own_step E t s' \<or> event_step E t s')))"
proof (rule wfp_if_convertible_to_nat [of _ "run_rank E"], elim conjE exE)
  fix s s' t
  assume s: "shutting_down E cmds s" and q: "steps (quiet_step E) s t" and "own_step E t s' \<or> event_step E t s'"
  moreover have t: "shutting_down E cmds t" "run_rank E t \<le> run_rank E s" using quiet_steps [OF q s] by auto
  moreover have "run_inv E t" using t(1) by (auto simp: shutting_down_def intro: running.inv_reachable)
  ultimately have "run_rank E s' < run_rank E t"
    using own_step_decreases [of E t s'] event_step_decreases [of E t s'] by (auto simp: shutting_down_def)
  with t(2) show "run_rank E s' < run_rank E s" by simp
qed

text \<open>C11. A shutdown ends: once the context of the engine servers is done, there is no infinite run of the goroutines
  that \<open>StartGraphqlEngineServers\<close> starts, of the one that listens and of the operation \<open>engine-servers\<close>, by
  themselves or on what reaches them from outside, whatever else happens between their steps, as long as the
  replica writes nothing more. The loops that wait for a server end by their deadlines.\<close>

theorem shutdown_ends:
  "wfp (\<lambda>s' s. reachable (run_start E cmds) (run_step E) s \<and> srv_done E s \<and>
     (\<exists>t. steps (quiet_step E) s t \<and> (own_step E t s' \<or> event_step E t s')))"
  using program_steps_end [of E cmds] by (simp add: shutting_down_def conj_assoc)

text \<open>What the shutdown can be waiting for: a startup that is not over, a process that has been told to end but
  has not, and a log of the replica that nobody reads.\<close>

lemma log_move_or_stalled:
  assumes "rn_exit s = None" and "lg_unread (rn_log s) \<noteq> []" and "\<not> stalled (rn_log s)"
  shows "\<exists>s'. own_step E s s'"
  using reader_moves [of "(rn_log s)\<lparr>lg_cancelled := srv_done E s\<rparr>"] assms(2,3) log_moves [OF assms(1)]
  by (auto simp: stalled_def)

lemma stuck_cases:
  assumes "reachable (run_start E cmds) (run_step E) s" and "rn_exit s = None" and "rn_stop s \<noteq> NotBegun"
    and "\<nexists>s'. own_step E s s'"
  shows "(\<exists>e. rn_stop s = Received e) \<or>
    (\<exists>w. (rn_phase s = AwaitStartup (Asleep w) \<or> rn_phase s = Resting w) \<and> run_now s < w \<and> w \<le> run_now s + 1 * Second) \<or>
    rn_phase s = AwaitStartup Asking \<or>
    rn_phase s = AwaitAll \<and> (\<exists>p \<in> set (rn_procs s). pc_signalled p \<and> pc_ProcessState p = None) \<or>
    rn_phase s = AwaitAll \<and> 2 < length (rn_procs s) \<and> lg_unread (rn_log s) \<noteq> [] \<and> stalled (rn_log s)"
proof -
  note inv = running.inv_reachable [OF assms(1)]
  show ?thesis
  proof (cases "rn_stop s")
    case AwaitReport
    then have srv: "srv_done E s" using inv by (simp add: run_inv_def stop_ok_def)
    show ?thesis
    proof (cases "rn_phase s")
      case (Starting rest)
      then show ?thesis using start_fails [OF assms(2)] all_started [OF assms(2)] assms(4) by (cases rest) blast+
    next
      case (AwaitStartup p)
      then have "p \<noteq> Looking" using startup_over [OF assms(2)] startup_sleeps [OF assms(2)] assms(4) by blast
      moreover have "run_now s < w \<and> w \<le> run_now s + 1 * Second" if "p = Asleep w" for w
        using startup_asks [OF assms(2), of w E] assms(4) AwaitStartup that inv
        by (force simp: run_inv_def phase_ok_def Second_def)
      ultimately show ?thesis using AwaitStartup by (cases p) auto
    next
      case Watching
      then show ?thesis using watch_over [OF assms(2) _ srv] assms(4) by blast
    next
      case (Resting w)
      then have "run_now s < w" using watch_rested [OF assms(2), of w E] assms(4) by force
      then show ?thesis using Resting inv by (simp add: run_inv_def phase_ok_def)
    next
      case AwaitAll
      then have "\<not> list_all pc_waited (rn_procs s)" using all_waited [OF assms(2)] assms(4) by blast
      then obtain i where i: "i < length (rn_procs s)" "\<not> pc_waited (rn_procs s ! i)" by (auto simp: list_all_length)
      show ?thesis
      proof (cases "pc_ProcessState (rn_procs s ! i) = None")
        case True
        then have "pc_signalled (rn_procs s ! i)" using signal [OF assms(2) i(1) srv] assms(4) by blast
        with True i(1) AwaitAll show ?thesis by (meson nth_mem)
      next
        case False
        then have "i = 2" "lg_unread (rn_log s) \<noteq> []" using waited [of s i E, OF assms(2) i(1) False i(2)] assms(4)
          by (cases "i = 2"; cases "lg_unread (rn_log s) = []"; simp)+
        then show ?thesis using i(1) AwaitAll log_move_or_stalled [OF assms(2)] assms(4) by blast
      qed
    next
      case (Reporting e)
      then show ?thesis using report [OF assms(2) _ AwaitReport] assms(4) by blast
    next
      case (Reported e)
      then show ?thesis using inv by (simp add: run_inv_def phase_ok_def)
    qed
  qed (use assms(3) in auto)
qed

text \<open>C8. What a shutdown can wait for. When it has begun and none of the goroutines can take a step by itself any more,
  then it has been reported to the clean-up operation, or the supervisor sleeps for a second at most, between two
  looks at its contexts, or it still waits: for the answer to its probe during the startup, for a process that
  has been told to end, or for the output of the replica, which nobody reads any more.\<close>

theorem shutdown_waits_for:
  assumes "reachable (run_start E cmds) (run_step E) s" and "rn_exit s = None" and "rn_stop s \<noteq> NotBegun"
    and "\<nexists>s'. own_step E s s'"
  shows "(\<exists>e. rn_stop s = Received e) \<or>
    (\<exists>w. (rn_phase s = AwaitStartup (Asleep w) \<or> rn_phase s = Resting w) \<and> run_now s < w \<and> w \<le> run_now s + 1 * Second) \<or>
    rn_phase s = AwaitStartup Asking \<or>
    rn_phase s = AwaitAll \<and> (\<exists>p \<in> set (rn_procs s). pc_signalled p \<and> pc_ProcessState p = None) \<or>
    rn_phase s = AwaitAll \<and> 2 < length (rn_procs s) \<and> lg_unread (rn_log s) \<noteq> [] \<and> stalled (rn_log s)"
  using assms by (rule stuck_cases)

text \<open>While the program winds up, its own steps keep it winding up: the shutdown has begun, the startup is over,
  the processes have ended, in the states \<open>sts\<close>, and their output has been read.\<close>

fun winding_phase :: "int \<Rightarrow> supervisor_phase \<Rightarrow> bool" where
  "winding_phase now (Starting cmds) = False"
| "winding_phase now (AwaitStartup p) = False"
| "winding_phase now (Resting w) = (w \<le> now)"
| "winding_phase now ph = True"

definition winding_up :: "run_env \<Rightarrow> proc_state option list \<Rightarrow> run_state \<Rightarrow> bool" where
  "winding_up E sts s \<longleftrightarrow>
     rn_exit s = None \<and> rn_stop s \<noteq> NotBegun \<and> winding_phase (run_now s) (rn_phase s) \<and> srv_done E s \<and>
     proc_states s = sts \<and> list_all (\<lambda>st. st \<noteq> None) sts \<and> lg_unread (rn_log s) = []"

lemma unread_own: "reader_step l l' \<Longrightarrow> lg_unread l = [] \<Longrightarrow> lg_unread l' = []"
  unfolding reader_step_def by (elim conjE log_stepE) (auto simp: hand_over_def)

lemma proc_states_set: "pc_ProcessState (f (rn_procs s ! i)) = pc_ProcessState (rn_procs s ! i) \<Longrightarrow> proc_states (set_proc i f s) = proc_states s"
  by (cases "i < length (rn_procs s)") (simp_all add: proc_states_def set_proc_def map_update list_update_same_conv list_update_beyond)

lemma begun_srv_done: "run_inv E s \<Longrightarrow> rn_stop s \<noteq> NotBegun \<Longrightarrow> srv_done E s"
  by (auto simp: run_inv_def stop_ok_def phase_ok_def reports_def split: stop_op.splits)

lemma winding_up_step:
  assumes "winding_up E sts s" and "own_step E s s'"
  shows "winding_up E sts s'"
  using assms(2)
proof (cases rule: own_step.cases)
  case (log_moves l)
  then show ?thesis
    using unread_own [OF log_moves(3)] assms(1) by (simp add: winding_up_def proc_states_def)
next
  case (signal i)
  then show ?thesis
    using assms(1) proc_states_set [of "\<lambda>p. p\<lparr>pc_signalled := True\<rparr>" s i] by (simp add: winding_up_def set_proc_def)
next
  case (waited i)
  then show ?thesis
    using assms(1) proc_states_set [of "\<lambda>p. p\<lparr>pc_waited := True\<rparr>" s i] by (simp add: winding_up_def set_proc_def)
qed (use assms(1) in \<open>auto simp: winding_up_def proc_states_def\<close>)

lemma wound_up:
  assumes "reachable (run_start E cmds) (run_step E) s" and w: "winding_up E sts s" and "\<nexists>s'. own_step E s s'"
  shows "rn_stop s = Received (shutdown_error sts)"
proof -
  note inv = running.inv_reachable [OF assms(1)]
  have "\<forall>p \<in> set (rn_procs s). pc_ProcessState p \<noteq> None"
    using w by (auto simp: winding_up_def proc_states_def list_all_iff)
  then obtain e where e: "rn_stop s = Received e"
    using stuck_cases [OF assms(1) _ _ assms(3)] w by (auto simp: winding_up_def)
  with received_reports [OF inv e] w show ?thesis by (simp add: reports_def winding_up_def)
qed

definition winds_up :: "run_env \<Rightarrow> command list \<Rightarrow> proc_state option list \<Rightarrow> run_state \<Rightarrow> bool" where
  "winds_up E cmds sts s \<longleftrightarrow> reachable (run_start E cmds) (run_step E) s \<and> winding_up E sts s"

interpretation winding: running_down "own_step E" "winds_up E cmds sts" "run_rank E" "\<lambda>s. rn_stop s = Received (shutdown_error sts)"
  for E cmds sts
proof unfold_locales
  show "winds_up E cmds sts s'" if "winds_up E cmds sts s" "own_step E s s'" for s s'
    using that own_next winding_up_step unfolding winds_up_def by blast
  show "run_rank E s' < run_rank E s" if "winds_up E cmds sts s" "own_step E s s'" for s s'
    using that by (intro own_step_decreases) (auto simp: winds_up_def winding_up_def intro: running.inv_reachable)
  show "rn_stop s = Received (shutdown_error sts)" if "winds_up E cmds sts s" "\<nexists>s'. own_step E s s'" for s
    using that wound_up unfolding winds_up_def by blast
qed

text \<open>C9. A shutdown completes: when it has begun after the startup is over, the supervisor is not asleep, the processes
  have ended and their output has been read, the goroutines of the program by themselves bring the report
  about, and in whatever order they take their steps, once none of them can take another one, the clean-up
  operation has received exactly the error of how the processes ended.\<close>

theorem shutdown_completes:
  assumes "reachable (run_start E cmds) (run_step E) s" and "rn_exit s = None" and "rn_stop s \<noteq> NotBegun"
    and "rn_phase s \<in> {Watching, AwaitAll} \<or> (\<exists>w. rn_phase s = Resting w \<and> w \<le> run_now s)"
    and "list_all (\<lambda>p. pc_ProcessState p \<noteq> None) (rn_procs s)" and "lg_unread (rn_log s) = []"
  shows "(\<exists>t. steps (own_step E) s t \<and> rn_stop t = Received (shutdown_error (proc_states s))) \<and>
    (\<forall>t. steps (own_step E) s t \<and> (\<nexists>u. own_step E t u) \<longrightarrow> rn_stop t = Received (shutdown_error (proc_states s)))"
proof -
  have "srv_done E s" using begun_srv_done assms(3) running.inv_reachable [OF assms(1)] by blast
  moreover have "winding_phase (run_now s) (rn_phase s)" using assms(4) by auto
  ultimately have "winds_up E cmds (proc_states s) s"
    using assms(1-3,5,6) by (simp add: winds_up_def winding_up_def proc_states_def list_all_iff)
  then show ?thesis using winding.goal_reached winding.goal_at_end by blast
qed

subsection \<open>A stalled log\<close>

text \<open>The replica is still waited for, and its output stays where it is.\<close>

definition held_up :: "run_state \<Rightarrow> bool" where
  "held_up s \<longleftrightarrow> 2 < length (rn_procs s) \<and> \<not> pc_waited (rn_procs s ! 2) \<and> lg_unread (rn_log s) \<noteq> [] \<and> stalled (rn_log s) \<and>
     (\<forall>e. rn_phase s \<noteq> Reporting e \<and> rn_phase s \<noteq> Reported e) \<and> (\<forall>e. rn_stop s \<noteq> Received e)"

lemma stalled_step: "stalled l \<Longrightarrow> log_step l l' \<Longrightarrow> stalled l' \<and> (\<exists>more. lg_unread l' = lg_unread l @ more)"
  using stays_step [of "lg_unread l" "lg_printed l" l l'] by (auto simp: stays_def)

lemma held_up_step:
  assumes "held_up s" and "run_step E s s'"
  shows "held_up s'"
proof -
  from assms(2) consider "own_step E s s'" | "event_step E s s'" | "env_step E s s'" by (auto simp: run_step_def)
  then show ?thesis
  proof cases
    case 1
    then show ?thesis
    proof (cases rule: own_step.cases)
      case watch_turn
      then show ?thesis using watch_round_changes [of E s] assms(1) by (auto simp: held_up_def)
    next
      case (log_moves l)
      then show ?thesis using stalled_step [OF _ reader_log [OF log_moves(3)]] assms(1) by (fastforce simp: held_up_def stalled_def)
    qed (use assms(1) in \<open>auto simp: held_up_def start_process_def set_proc_def exit_main_def nth_append nth_list_update list_all_length split: if_splits\<close>)
  next
    case 2
    then show ?thesis
      by (cases rule: event_step.cases) (use assms(1) in \<open>auto simp: held_up_def stop_ops\<close>)
  next
    case 3
    then show ?thesis
      by (cases rule: env_step.cases) (use assms(1) in \<open>auto simp: held_up_def set_proc_def nth_list_update stalled_def\<close>)
  qed
qed

interpretation hold: step_invariant "run_step E" held_up for E
  by unfold_locales (rule held_up_step)

text \<open>C10. A log that nobody reads holds the shutdown up: once the log of the replica is stalled with output left in
  the pipe, and the replica is still waited for, the supervisor never reports, whatever happens, so that the
  operation never returns and \<open>main\<close> exits with the code of the clean-up only when the 30 seconds of the shutdown
  are over.\<close>

theorem stalled_log_holds_shutdown:
  assumes "reachable (run_start E cmds) (run_step E) s" and "exit_law E"
    and "2 < length (rn_procs s)" and "\<not> pc_waited (rn_procs s ! 2)"
    and "lg_unread (rn_log s) \<noteq> []" and "stalled (rn_log s)" and "steps (run_step E) s s'"
  shows "(\<forall>e. rn_stop s' \<noteq> Received e) \<and>
    (\<forall>code. rn_exit s' = Some (CleanedUp code) \<longrightarrow> (\<exists>t. rn_begun s' = Some t \<and> t + 30 * Second \<le> run_now s'))"
proof -
  have inv: "run_inv E s" by (rule running.inv_reachable [OF assms(1)])
  have "\<not> list_all pc_waited (rn_procs s)" using assms(3,4) by (auto simp: list_all_length)
  then have "held_up s" using assms(3-6) inv by (auto simp: held_up_def run_inv_def stop_ok_def phase_ok_def reports_def)
  then have h': "held_up s'" by (rule hold.inv_steps [OF assms(7)])
  have inv': "run_inv E s'" by (rule running.inv_reachable [OF reachable_steps [OF assms(1,7)]])
  have "\<exists>t. rn_begun s' = Some t \<and> t + 30 * Second \<le> run_now s'" if "rn_exit s' = Some (CleanedUp code)" for code
    using that inv' h' assms(2) by (fastforce simp: run_inv_def exit_ok_def exit_law_def held_up_def GRACEFUL_SHUTDOWN_TIMEOUT_def)
  then show ?thesis using h' by (auto simp: held_up_def)
qed

subsection \<open>Examples\<close>

text \<open>The contexts of a program that starts at 0, and a library that exits with 0 after the report and with 1
  when its time is over.\<close>

definition sim_run :: run_env where
  "sim_run =
     \<lparr>re_ctxs = \<lparr>mc_main = 1, mc_startup = 2, mc_readonly = 3\<rparr>, re_srv = 4, re_groupcache = True,
      re_exits = \<lambda>elapsed received code. received \<and> code = 0 \<or> GRACEFUL_SHUTDOWN_TIMEOUT \<le> elapsed \<and> code = 1\<rparr>"

definition run_ctx :: ctx_state where
  "run_ctx = snd (start_server_context (re_ctxs sim_run) (snd (main_contexts (program_start 0))))"

definition run_at :: "command list \<Rightarrow> run_state" where
  "run_at cmds =
     \<lparr>rn_ctx = run_ctx,
      rn_procs = [], rn_log = log_empty, rn_phase = Starting cmds, rn_check = True, rn_replica = None, rn_listening = True,
      rn_stop = NotBegun, rn_begun = None, rn_exit = None\<rparr>"

text \<open>The same half a second later, when the supervisor has slept.\<close>

abbreviation half :: int where
  "half \<equiv> 500 * 1000000"

definition late :: "run_state \<Rightarrow> run_state" where
  "late s = s\<lparr>rn_ctx := (rn_ctx s)\<lparr>st_now := half\<rparr>\<rparr>"

lemma sim_run_law: "exit_law sim_run"
  by (simp add: exit_law_def sim_run_def)

lemma run_ctx_eq:
  "run_ctx = \<lparr>st_contexts =
     [\<lparr>ctx_parent = None, ctx_deadline = None, ctx_cancelled = False\<rparr>,
      \<lparr>ctx_parent = Some 0, ctx_deadline = None, ctx_cancelled = False\<rparr>,
      \<lparr>ctx_parent = Some 1, ctx_deadline = Some (60 * Second), ctx_cancelled = False\<rparr>,
      \<lparr>ctx_parent = Some 1, ctx_deadline = Some (180 * Second), ctx_cancelled = False\<rparr>,
      \<lparr>ctx_parent = Some 1, ctx_deadline = None, ctx_cancelled = False\<rparr>], st_now = 0, st_watchers = []\<rparr>"
  by (simp add: run_ctx_def sim_run_def main_contexts_eq start_server_context_def WithCancel_def)

lemma run_ctx_now [simp]: "st_now run_ctx = 0"
  by (simp add: run_ctx_eq)

lemma run_at_start: "reachable (run_start sim_run cmds) (run_step sim_run) (run_at cmds)"
proof (rule at_start)
  have m: "main_contexts (program_start 0) = (re_ctxs sim_run, snd (main_contexts (program_start 0)))"
    by (simp add: main_contexts_eq sim_run_def)
  have "start_server_context (re_ctxs sim_run) (snd (main_contexts (program_start 0))) = (re_srv sim_run, run_ctx)"
    by (simp add: start_server_context_def WithCancel_def main_contexts_eq sim_run_def run_ctx_def)
  from main_makes_run_ctxs [OF m steps_refl [where step = "ctx_step {}"] _ this] have "run_ctxs sim_run run_ctx" by simp
  then show "run_start sim_run cmds (run_at cmds)" by (simp add: run_start_def run_at_def log_start_def log_empty_def)
qed

lemma run_ctx_open:
  "\<not> is_done run_ctx 4" "\<not> is_done run_ctx 2"
  "is_done (run_ctx\<lparr>st_contexts := cancel_ctx 4 (st_contexts run_ctx)\<rparr>) 4"
  "\<not> is_done (run_ctx\<lparr>st_contexts := cancel_ctx 4 (st_contexts run_ctx)\<rparr>) 2"
  "is_done (run_ctx\<lparr>st_now := half, st_contexts := cancel_ctx 4 (cancel_ctx 2 (st_contexts run_ctx))\<rparr>) 4"
  "is_done (run_ctx\<lparr>st_now := half, st_contexts := cancel_ctx 4 (cancel_ctx 2 (st_contexts run_ctx))\<rparr>) 2"
  by (simp_all add: run_ctx_eq is_done_def ctx_done.simps Second_def cancel_ctx_def)

lemmas run_defs = run_at_def late_def cancel_run_def sim_run_def stop_ops

text \<open>No command: the startup is going on, and the parser of the log has ended.\<close>

definition waiting_run :: run_state where
  "waiting_run = (cancel_run 4 (run_at []))
     \<lparr>rn_phase := AwaitStartup (Asleep half), rn_stop := AwaitReport, rn_begun := Some 0,
      rn_log := log_empty\<lparr>lg_cancelled := True, lg_parsing := False\<rparr>\<rparr>"

lemma waiting_run_reachable: "reachable (run_start sim_run []) (run_step sim_run) waiting_run"
proof -
  let ?R = "reachable (run_start sim_run []) (run_step sim_run)"
  let ?a = "(run_at [])\<lparr>rn_phase := AwaitStartup (Asleep half)\<rparr>"
  let ?b = "(cancel_run 4 ?a)\<lparr>rn_stop := AwaitReport, rn_begun := Some 0\<rparr>"
  have "?R ((run_at [])\<lparr>rn_phase := AwaitStartup Looking\<rparr>)"
    using own_next [OF run_at_start all_started] by (simp add: run_at_def)
  then have "?R ?a"
    using own_next [OF _ startup_sleeps, of _ sim_run "(run_at [])\<lparr>rn_phase := AwaitStartup Looking\<rparr>"] run_ctx_open(2)
    by (simp add: run_defs)
  moreover have "event_step sim_run ?a ?b"
    using stop_begins [of ?a sim_run] by (simp add: run_defs)
  ultimately have "?R ?b" by (rule event_next)
  moreover have "own_step sim_run ?b waiting_run"
  proof -
    let ?l = "log_empty\<lparr>lg_cancelled := True\<rparr>"
    have "log_step ?l (?l\<lparr>lg_parsing := False\<rparr>)" by (rule parser_done) (simp_all add: log_empty_def)
    moreover have "waiting_run = ?b\<lparr>rn_log := ?l\<lparr>lg_parsing := False\<rparr>\<rparr>"
      by (simp add: waiting_run_def run_defs)
    moreover have "srv_done sim_run ?b" using run_ctx_open(3) by (simp add: run_defs)
    ultimately show ?thesis
      using log_moves [of ?b sim_run "?l\<lparr>lg_parsing := False\<rparr>"] by (simp add: reader_step_def log_empty_def run_defs)
  qed
  ultimately show ?thesis by (rule own_next)
qed

theorem shutdown_waits_for_witness:
  "\<exists>w. rn_phase waiting_run = AwaitStartup (Asleep w) \<and> run_now waiting_run < w \<and> w \<le> run_now waiting_run + 1 * Second"
proof -
  have stuck: "\<not> own_step sim_run waiting_run s'" for s'
  proof
    assume "own_step sim_run waiting_run s'"
    then show False
      using run_ctx_open(3,4)
      by (cases rule: own_step.cases)
        (auto simp: waiting_run_def run_defs log_empty_def reader_step_def elim!: log_stepE)
  qed
  have "rn_exit waiting_run = None" "rn_stop waiting_run = AwaitReport" "rn_phase waiting_run = AwaitStartup (Asleep half)"
    by (simp_all add: waiting_run_def run_defs)
  with shutdown_waits_for [OF waiting_run_reachable] stuck show ?thesis by simp
qed

text \<open>One process, from its start to the exit of the program.\<close>

definition run_of_one :: "run_state \<Rightarrow> supervisor_phase \<Rightarrow> proc \<Rightarrow> run_state" where
  "run_of_one s ph p = s\<lparr>rn_phase := ph, rn_procs := [p]\<rparr>"

definition clean_exit :: proc_state where
  "clean_exit = \<lparr>ps_Exited = True, ps_Success = True, ps_String = ''exit status 0''\<rparr>"

definition ended_run :: run_state where
  "ended_run = (cancel_run 4 (cancel_run 2 (late (run_at [scripting_command]))))
     \<lparr>rn_phase := Reported None, rn_stop := Received None, rn_begun := Some half, rn_exit := Some (CleanedUp 0),
      rn_procs := [\<lparr>pc_command = scripting_command, pc_signalled = False, pc_ProcessState = Some clean_exit, pc_waited = True\<rparr>]\<rparr>"

abbreviation one_proc :: "proc_state option \<Rightarrow> bool \<Rightarrow> proc" where
  "one_proc st w \<equiv> \<lparr>pc_command = scripting_command, pc_signalled = False, pc_ProcessState = st, pc_waited = w\<rparr>"

definition watching_one :: run_state where
  "watching_one = cancel_run 2 (late (run_of_one (run_at [scripting_command]) Watching (one_proc None False)))"

lemma watching_one_reachable: "reachable (run_start sim_run [scripting_command]) (run_step sim_run) watching_one"
proof -
  let ?R = "reachable (run_start sim_run [scripting_command]) (run_step sim_run)"
  let ?s = "run_at [scripting_command]" and ?p = "one_proc None False"
  have "?R (run_of_one ?s (Starting []) ?p)"
    using own_next [OF run_at_start start_ok [of ?s scripting_command "[]" sim_run]] run_ctx_open(1)
    by (simp add: run_of_one_def start_process_def run_defs)
  then have "?R (run_of_one ?s (AwaitStartup Looking) ?p)"
    using own_next [OF _ all_started, of _ _ "run_of_one ?s (Starting []) ?p"]
    by (simp add: run_of_one_def run_defs)
  then have "?R (run_of_one ?s (AwaitStartup (Asleep half)) ?p)"
    using own_next [OF _ startup_sleeps, of _ sim_run "run_of_one ?s (AwaitStartup Looking) ?p"] run_ctx_open(2)
    by (simp add: run_of_one_def run_defs)
  then have "?R (late (run_of_one ?s (AwaitStartup (Asleep half)) ?p))"
    using env_next [OF _ world [OF _ time_passes], of _ sim_run "run_of_one ?s (AwaitStartup (Asleep half)) ?p" half]
    by (simp add: run_of_one_def run_defs)
  then have "?R (late (run_of_one ?s (AwaitStartup Asking) ?p))"
    using own_next [OF _ startup_asks, of _ sim_run "late (run_of_one ?s (AwaitStartup (Asleep half)) ?p)" half]
    by (simp add: run_of_one_def run_defs)
  then show ?thesis
    using event_next [OF _ startup_answer [of _ sim_run 200], of _ "late (run_of_one ?s (AwaitStartup Asking) ?p)"]
    by (simp add: run_of_one_def watching_one_def run_defs)
qed

lemma watching_one_ends:
  defines "s \<equiv> set_proc 0 (\<lambda>p. p\<lparr>pc_ProcessState := Some clean_exit\<rparr>) watching_one"
  shows "reachable (run_start sim_run [scripting_command]) (run_step sim_run) s" and "run_step sim_run s (watch_round sim_run s)"
    and "\<not> main_done sim_run s" and "main_done sim_run (watch_round sim_run s)"
proof -
  show "reachable (run_start sim_run [scripting_command]) (run_step sim_run) s"
    unfolding s_def by (rule env_next [OF watching_one_reachable process_ends])
      (simp_all add: watching_one_def run_of_one_def run_defs)
  have "\<not> srv_done sim_run s"
    by (simp add: s_def watching_one_def run_of_one_def run_defs set_proc_def run_ctx_eq is_done_def ctx_done.simps cancel_ctx_def)
  then have "own_step sim_run s (watch_round sim_run s)"
    by (intro watch_turn) (simp_all add: s_def watching_one_def run_of_one_def run_defs set_proc_def)
  then show "run_step sim_run s (watch_round sim_run s)" by (simp add: run_step_def)
  show "\<not> main_done sim_run s"
    by (simp add: s_def watching_one_def run_of_one_def run_defs set_proc_def run_ctx_eq is_done_def ctx_done.simps cancel_ctx_def)
  show "main_done sim_run (watch_round sim_run s)"
    by (simp add: s_def watching_one_def run_of_one_def run_defs set_proc_def watch_round_def run_super_def proc_states_def
        run_ctx_eq cancel_ctx_def is_done_def ctx_done.simps)
qed

theorem self_shutdown_cause_witness:
  "\<exists>s s'. reachable (run_start sim_run [scripting_command]) (run_step sim_run) s \<and> run_step sim_run s s' \<and>
     rn_phase s = Watching \<and> srv_done sim_run s'"
proof -
  let ?s = "set_proc 0 (\<lambda>p. p\<lparr>pc_ProcessState := Some clean_exit\<rparr>) watching_one"
  have "rn_phase ?s = Watching" by (simp add: watching_one_def run_of_one_def run_defs set_proc_def)
  with self_shutdown_cause [OF watching_one_ends] watching_one_ends(1,2) show ?thesis by blast
qed

text \<open>The shutdown has begun, and the process has ended but is still waited for.\<close>

definition stopping :: "run_state \<Rightarrow> run_state" where
  "stopping s = (cancel_run 4 (cancel_run 2 (late s)))\<lparr>rn_stop := AwaitReport, rn_begun := Some half\<rparr>"

definition stopping_one :: "supervisor_phase \<Rightarrow> proc \<Rightarrow> run_state" where
  "stopping_one ph p = stopping (run_of_one (run_at [scripting_command]) ph p)"

lemmas one_defs = stopping_one_def stopping_def run_of_one_def run_defs

lemma stopping_one_done: "srv_done sim_run (stopping_one ph p)" "startup_done sim_run (stopping_one ph p)"
  using run_ctx_open(5,6) by (simp_all add: one_defs)

lemma stopping_one_reachable:
  "reachable (run_start sim_run [scripting_command]) (run_step sim_run) (stopping_one AwaitAll (one_proc (Some clean_exit) False))"
proof -
  let ?R = "reachable (run_start sim_run [scripting_command]) (run_step sim_run)"
  have "?R (stopping_one Watching (one_proc None False))"
    using event_next [OF watching_one_reachable stop_begins] by (simp add: watching_one_def one_defs)
  then have "?R (stopping_one AwaitAll (one_proc None False))"
    using own_next [OF _ watch_over, of _ sim_run "stopping_one Watching (one_proc None False)"] stopping_one_done(1)
    by (simp add: one_defs)
  then show ?thesis
    using env_next [OF _ process_ends [of _ 0 sim_run clean_exit], of _ "stopping_one AwaitAll (one_proc None False)"]
    by (simp add: one_defs set_proc_def)
qed

theorem shutdown_completes_witness:
  "\<exists>t. steps (own_step sim_run) (stopping_one AwaitAll (one_proc (Some clean_exit) False)) t \<and> rn_stop t = Received None"
proof -
  let ?s = "stopping_one AwaitAll (one_proc (Some clean_exit) False)"
  have "rn_exit ?s = None" "rn_stop ?s \<noteq> NotBegun" "rn_phase ?s = AwaitAll"
    "list_all (\<lambda>p. pc_ProcessState p \<noteq> None) (rn_procs ?s)" "lg_unread (rn_log ?s) = []"
    and e: "shutdown_error (proc_states ?s) = None"
    by (simp_all add: one_defs log_empty_def proc_states_def shutdown_error_def clean_exit_def)
  with shutdown_completes [OF stopping_one_reachable] show ?thesis by (simp add: e)
qed

lemma ended_run_reachable: "reachable (run_start sim_run [scripting_command]) (run_step sim_run) ended_run"
proof -
  let ?R = "reachable (run_start sim_run [scripting_command]) (run_step sim_run)"
  have "?R (stopping_one AwaitAll (one_proc (Some clean_exit) True))"
    using own_next [OF stopping_one_reachable waited [of _ 0 sim_run]] by (simp add: one_defs set_proc_def)
  then have "?R (stopping_one (Reporting None) (one_proc (Some clean_exit) True))"
    using own_next [OF _ all_waited, of _ sim_run "stopping_one AwaitAll (one_proc (Some clean_exit) True)"]
    by (simp add: one_defs proc_states_def shutdown_error_def clean_exit_def)
  then have "?R ((stopping_one (Reported None) (one_proc (Some clean_exit) True))\<lparr>rn_stop := Received None\<rparr>)"
    using own_next [OF _ report, of _ sim_run "stopping_one (Reporting None) (one_proc (Some clean_exit) True)" None]
    by (simp add: one_defs)
  then show ?thesis
    using event_next [OF _ main_exits [of _ half sim_run 0], of _
        "(stopping_one (Reported None) (one_proc (Some clean_exit) True))\<lparr>rn_stop := Received None\<rparr>"]
    by (simp add: one_defs ended_run_def)
qed

theorem exit_leaves_no_process_witness:
  "map pc_command (rn_procs ended_run) = [scripting_command] \<and> rn_stop ended_run = Received None"
proof -
  have e: "rn_exit ended_run = Some (CleanedUp 0)"
    and "\<nexists>t. rn_begun ended_run = Some t \<and> t + 30 * Second \<le> run_now ended_run"
    and "shutdown_error (map pc_ProcessState (rn_procs ended_run)) = None"
    by (simp_all add: ended_run_def run_defs Second_def shutdown_error_def clean_exit_def)
  with exit_leaves_no_process [OF ended_run_reachable sim_run_law e] show ?thesis by simp
qed

text \<open>Three processes, and a line of the replica that is too long.\<close>

definition long_line :: string where
  "long_line = replicate MaxScanTokenSize (CHR ''x'')"

definition new_proc :: "command \<Rightarrow> proc" where
  "new_proc cmd = \<lparr>pc_command = cmd, pc_signalled = False, pc_ProcessState = None, pc_waited = False\<rparr>"

definition stalled_run :: "command list \<Rightarrow> run_state" where
  "stalled_run cmds = (run_at cmds)
     \<lparr>rn_phase := AwaitStartup Looking, rn_procs := map new_proc cmds, rn_replica := Some Looking,
      rn_log := log_empty\<lparr>lg_written := [long_line], lg_unread := [long_line], lg_scanner := ScanEnded\<rparr>\<rparr>"

lemma stalled_run_reachable:
  "reachable (run_start sim_run [c0, c1, c2]) (run_step sim_run) (stalled_run [c0, c1, c2])"
proof -
  let ?R = "reachable (run_start sim_run [c0, c1, c2]) (run_step sim_run)"
  let ?s = "run_at [c0, c1, c2]"
  let ?a = "\<lambda>ps cs. ?s\<lparr>rn_phase := Starting cs, rn_procs := map new_proc ps\<rparr>"
  let ?b = "\<lambda>ph. ?s\<lparr>rn_phase := ph, rn_procs := map new_proc [c0, c1, c2], rn_replica := Some Looking\<rparr>"
  have open4: "\<not> is_done (rn_ctx ?s) (re_srv sim_run)" using run_ctx_open(1) by (simp add: run_defs)
  have "?R (?a [c0] [c1, c2])"
    using own_next [OF run_at_start start_ok [of ?s c0 "[c1, c2]" sim_run]] open4
    by (simp add: start_process_def new_proc_def run_defs)
  then have "?R (?a [c0, c1] [c2])"
    using own_next [OF _ start_ok [of "?a [c0] [c1, c2]" c1 "[c2]" sim_run]] open4
    by (simp add: start_process_def new_proc_def run_defs)
  then have "?R (?b (Starting []))"
    using own_next [OF _ start_ok [of "?a [c0, c1] [c2]" c2 "[]" sim_run]] open4
    by (simp add: start_process_def new_proc_def run_defs)
  then have "?R (?b (AwaitStartup Looking))"
    using own_next [OF _ all_started [of "?b (Starting [])" sim_run]] by (simp add: run_defs)
  then have "?R ((?b (AwaitStartup Looking))\<lparr>rn_log := log_empty\<lparr>lg_written := [long_line], lg_unread := [long_line]\<rparr>\<rparr>)"
    using env_next [OF _ replica_writes [of "?b (AwaitStartup Looking)" sim_run "[long_line]"]] by (simp add: new_proc_def log_empty_def run_defs)
  moreover have "own_step sim_run ((?b (AwaitStartup Looking))\<lparr>rn_log := log_empty\<lparr>lg_written := [long_line], lg_unread := [long_line]\<rparr>\<rparr>)
      (stalled_run [c0, c1, c2])"
  proof -
    let ?l = "log_empty\<lparr>lg_written := [long_line], lg_unread := [long_line]\<rparr>"
    have "log_step ?l (?l\<lparr>lg_scanner := ScanEnded\<rparr>)"
      using scan_step [of ?l long_line "[]"] by (simp add: log_empty_def scan_line_def long_line_def)
    then show ?thesis
      using log_moves [of "(?b (AwaitStartup Looking))\<lparr>rn_log := ?l\<rparr>" sim_run "?l\<lparr>lg_scanner := ScanEnded\<rparr>"] open4
      by (simp add: reader_step_def log_empty_def stalled_run_def run_defs)
  qed
  ultimately show ?thesis by (rule own_next)
qed

theorem stalled_log_holds_shutdown_witness:
  "\<exists>s. reachable (run_start sim_run [scripting_command, primary_command, primary_command]) (run_step sim_run) s \<and>
     2 < length (rn_procs s) \<and> lg_unread (rn_log s) = [long_line] \<and> rn_stop s = NotBegun \<and>
     (\<forall>e. rn_stop s \<noteq> Received e)"
proof -
  let ?cmds = "[scripting_command, primary_command, primary_command]"
  let ?s = "stalled_run ?cmds"
  have f: "2 < length (rn_procs ?s)" "\<not> pc_waited (rn_procs ?s ! 2)" "lg_unread (rn_log ?s) \<noteq> []"
    "stalled (rn_log ?s)"
    by (simp_all add: stalled_run_def new_proc_def stalled_def)
  show ?thesis
    using stalled_log_holds_shutdown [OF stalled_run_reachable sim_run_law f steps_refl] stalled_run_reachable f(1)
    by (intro exI [of _ ?s]) (simp add: stalled_run_def run_defs)
qed

end
