(* ===== verification/Group_Getter.thy ===== *)
theory Group_Getter
  imports Cache_Runs
begin

text \<open>
  The getter of \<open>src/cache_service.go\<close> behind groupcache: what the runs of the service rely on of groupcache,
  \<open>cache_honest\<close>, follows from the getter of the code, from the documented behaviour of redis, and from
  the contract of groupcache, which answers with what it remembers or with what its getter has put
  into the sink.
\<close>

subsection \<open>What the getter relies on\<close>

text \<open>\<open>redis w\<close> are the bytes ever set in redis under each key, \<open>held w\<close> those groupcache has ever been given,
  \<open>content w\<close> is what the sink holds.\<close>

definition undisturbed :: "('w \<Rightarrow> string \<Rightarrow> bytes set) \<Rightarrow> ('w \<Rightarrow> string \<Rightarrow> bytes set) \<Rightarrow> 'w \<Rightarrow> 'w \<Rightarrow> bool" where
  "undisturbed redis held w w' \<longleftrightarrow> redis w' = redis w \<and> held w' = held w"

definition redis_honest ::
  "'w cache_ops \<Rightarrow> ('w \<Rightarrow> string \<Rightarrow> bytes set) \<Rightarrow> ('w \<Rightarrow> string \<Rightarrow> bytes set) \<Rightarrow> ('w \<Rightarrow> bytes) \<Rightarrow> bool" where
  "redis_honest ops redis held content \<longleftrightarrow>
     (\<forall>k v e w r w'. redis_Set ops k v e w = (r, w') \<longrightarrow> may_write redis k v w w' \<and> held w' = held w) \<and>
     (\<forall>k m w r w'. redis_SRem ops k m w = (r, w') \<longrightarrow> undisturbed redis held w w') \<and>
     (\<forall>k w r w'. reader_Get ops k w = (r, w') \<longrightarrow> undisturbed redis held w w' \<and> (\<forall>v. \<not> lock_key k \<longrightarrow> r = Inr v \<longrightarrow> v \<in> redis w k)) \<and>
     (\<forall>k w r w'. pipe_reader ops k w = (r, w') \<longrightarrow>
        undisturbed redis held w w' \<and> (\<forall>v. \<not> lock_key k \<longrightarrow> r_get r = Inr v \<longrightarrow> v \<in> redis w k)) \<and>
     (\<forall>k l w r w'. pipe_writer ops k l w = (r, w') \<longrightarrow>
        undisturbed redis held w w' \<and> (\<forall>v. \<not> lock_key k \<longrightarrow> r_get r = Inr v \<longrightarrow> v \<in> redis w k)) \<and>
     (\<forall>k w r w'. reader_GetInt64 ops k w = (r, w') \<longrightarrow> undisturbed redis held w w') \<and>
     (\<forall>d w. undisturbed redis held w (time_Sleep ops d w)) \<and>
     (\<forall>v e w r w'. sink_SetBytes ops v e w = (r, w') \<longrightarrow> undisturbed redis held w w' \<and> (r = None \<longrightarrow> content w' = v))"

text \<open>The contract of groupcache: \<open>Set\<close> gives it the bytes for the key or does nothing; \<open>Get\<close> answers with
  bytes it has been given for the key, or runs the getter, answers with the content of the sink when that
  returns nil, which it may keep for the key, and fails otherwise.\<close>

definition groupcache_contract ::
  "nat \<Rightarrow> 'w cache_ops \<Rightarrow> u64 \<Rightarrow> ('w \<Rightarrow> string \<Rightarrow> bytes set) \<Rightarrow> ('w \<Rightarrow> string \<Rightarrow> bytes set) \<Rightarrow> ('w \<Rightarrow> bytes) \<Rightarrow> bool" where
  "groupcache_contract n ops waitETA redis held content \<longleftrightarrow>
     (\<forall>k v e w r w'. group_Set ops k v e w = (r, w') \<longrightarrow> may_write held k v w w' \<and> redis w' = redis w) \<and>
     (\<forall>k w r w'. group_Get ops k w = (r, w') \<longrightarrow>
        undisturbed redis held w w' \<and> (\<forall>v. \<not> lock_key k \<longrightarrow> r = Inr v \<longrightarrow> v \<in> held w k) \<or>
        (\<exists>res w1. GetterFunc n ops waitETA k w = Some (res, w1) \<and>
           (if res = None then r = Inr (content w1) \<and> may_write held k (content w1) w1 w' \<and> redis w' = redis w1
            else undisturbed redis held w1 w' \<and> (\<nexists>v. r = Inr v))))"

subsection \<open>The getter\<close>

lemma undisturbed_refl [simp]: "undisturbed redis held w w"
  by (simp add: undisturbed_def)

lemma undisturbed_trans: "undisturbed redis held w w1 \<Longrightarrow> undisturbed redis held w1 w2 \<Longrightarrow> undisturbed redis held w w2"
  by (simp add: undisturbed_def)

lemma redis_honestD:
  fixes ops :: "'w cache_ops"
  assumes "redis_honest ops redis held content"
  shows "redis_Set ops k v e w = (r1, w') \<Longrightarrow> may_write redis k v w w' \<and> held w' = held w"
    and "redis_SRem ops k m w = (r1, w') \<Longrightarrow> undisturbed redis held w w'"
    and "reader_Get ops k w = (r2, w') \<Longrightarrow> undisturbed redis held w w' \<and> (\<forall>v. \<not> lock_key k \<longrightarrow> r2 = Inr v \<longrightarrow> v \<in> redis w k)"
    and "pipe_reader ops k w = (r, w') \<Longrightarrow> undisturbed redis held w w' \<and> (\<forall>v. \<not> lock_key k \<longrightarrow> r_get r = Inr v \<longrightarrow> v \<in> redis w k)"
    and "pipe_writer ops k l w = (r, w') \<Longrightarrow> undisturbed redis held w w' \<and> (\<forall>v. \<not> lock_key k \<longrightarrow> r_get r = Inr v \<longrightarrow> v \<in> redis w k)"
    and "reader_GetInt64 ops k w = (r3, w') \<Longrightarrow> undisturbed redis held w w'"
    and "undisturbed redis held w (time_Sleep ops d w)"
    and "sink_SetBytes ops v e' w = (r4, w') \<Longrightarrow> undisturbed redis held w w' \<and> (r4 = None \<longrightarrow> content w' = v)"
  using assms by (simp_all add: redis_honest_def)

lemma sink_undisturbed:
  "redis_honest ops redis held content \<Longrightarrow> sink ops v e w = (r, w') \<Longrightarrow> undisturbed redis held w w'"
  by (auto simp: sink_def dest!: redis_honestD(8) split: prod.splits option.splits)

lemma wait_round_undisturbed:
  assumes h: "redis_honest ops redis held content"
  shows "case wait_round ops k w of Inl (r, w') \<Rightarrow> undisturbed redis held w w' | Inr w' \<Rightarrow> undisturbed redis held w w'"
proof -
  obtain reply w1 where p: "pipe_reader ops k w = (reply, w1)" by fastforce
  then have w1: "undisturbed redis held w w1" using redis_honestD(4) [OF h] by blast
  have "undisturbed redis held w (time_Sleep ops (5 * Millisecond) w1)"
    by (rule undisturbed_trans [OF w1 redis_honestD(7) [OF h]])
  with w1 show ?thesis
    by (auto simp: wait_round_def p Let_def dest: sink_undisturbed [OF h] intro: undisturbed_trans
        split: sum.splits redis_error.splits option.splits prod.splits if_splits)
qed

lemma wait_loop_undisturbed:
  assumes "redis_honest ops redis held content"
  shows "wait_loop n ops k eta w = Some (r, w') \<Longrightarrow> undisturbed redis held w w'"
proof (induction n arbitrary: w)
  case (Suc n)
  then show ?case
    using wait_round_undisturbed [where k = k and w = w, OF assms]
    by (auto intro: undisturbed_trans split: if_splits sum.splits)
qed simp

lemma first_read_undisturbed:
  assumes "redis_honest ops redis held content" and "getter_first_read ops waitETA k w = (reply, eta, w')"
  shows "undisturbed redis held w w'"
  using assms(2) redis_honestD(4,5) [OF assms(1)]
  by (fastforce simp: getter_first_read_def Let_def split: if_splits prod.splits)

lemma getter_wait_undisturbed:
  assumes "redis_honest ops redis held content" and "getter_wait n ops k eta w = Some (x, w')"
  shows "undisturbed redis held w w'"
proof -
  obtain r w1 where i: "reader_GetInt64 ops (etaKey k) w = (r, w1)" by fastforce
  obtain e where "wait_loop n ops k e w1 = Some (x, w')"
    using assms(2) by (cases r) (auto simp: getter_wait_def i)
  with redis_honestD(6) [OF assms(1) i] wait_loop_undisturbed [OF assms(1)] show ?thesis
    by (blast intro: undisturbed_trans)
qed

lemma GetterFunc_undisturbed:
  assumes h: "redis_honest ops redis held content" and g: "GetterFunc n ops waitETA k w = Some (res, w')"
  shows "undisturbed redis held w w'"
proof -
  obtain reply eta w1 where f: "getter_first_read ops waitETA k w = (reply, eta, w1)" by (metis prod_cases3)
  have "undisturbed redis held w1 w'"
    using g
    by (auto simp: GetterFunc_def f Let_def dest: getter_wait_undisturbed [OF h] sink_undisturbed [OF h]
        split: sum.splits redis_error.splits if_splits option.splits prod.splits loop_exit.splits)
  with first_read_undisturbed [OF h f] show ?thesis by (rule undisturbed_trans)
qed

lemma replied_written:
  assumes h: "redis_honest ops redis held content" and "redis_replied ops k reply w" and "r_get reply = Inr v" and "\<not> lock_key k"
  shows "v \<in> redis w k"
proof -
  have "v \<in> redis w0 k \<and> redis w = redis w0" if "pipe_reader ops k w0 = (reply, w) \<or> pipe_writer ops k lock w0 = (reply, w)" for w0 lock
    using that redis_honestD(4,5) [OF h, of k] assms(3,4) by (auto simp: undisturbed_def)
  then show ?thesis using assms(2) unfolding redis_replied_def by (metis (no_types))
qed

lemma filled_written:
  assumes "redis_honest ops redis held content" and "filled_from_redis ops k w'" and "\<not> lock_key k"
  shows "content w' \<in> redis w' k"
proof -
  obtain reply v w e where r: "redis_replied ops k reply w" "r_get reply = Inr v" "sink_SetBytes ops v e w = (None, w')"
    using assms(2) by (auto simp: filled_from_redis_def)
  show ?thesis
    using replied_written [OF assms(1) r(1,2) assms(3)] redis_honestD(8) [OF assms(1) r(3)] by (simp add: undisturbed_def)
qed

lemma getter_nil_written:
  assumes "redis_honest ops redis held content" and "GetterFunc n ops waitETA k w = Some (None, w')" and "\<not> lock_key k"
  shows "content w' \<in> redis w k"
  using filled_written [OF assms(1) getter_nil_fills_sink [OF assms(2)] assms(3)] GetterFunc_undisturbed [OF assms(1,2)]
  by (simp add: undisturbed_def)

subsection \<open>Groupcache with the getter\<close>

definition cache_wrote :: "('w \<Rightarrow> string \<Rightarrow> bytes set) \<Rightarrow> ('w \<Rightarrow> string \<Rightarrow> bytes set) \<Rightarrow> 'w \<Rightarrow> string \<Rightarrow> bytes set" where
  "cache_wrote redis held w k = (if lock_key k then {} else redis w k \<union> held w k)"

lemma may_write_cache:
  "may_write redis k v w w' \<Longrightarrow> held w' = held w \<Longrightarrow> may_write (cache_wrote redis held) k v w w'"
  "may_write held k v w w' \<Longrightarrow> redis w' = redis w \<Longrightarrow> may_write (cache_wrote redis held) k v w w'"
  by (auto simp: may_write_def cache_wrote_def fun_eq_iff split: if_splits)

lemma undisturbed_cache: "undisturbed redis held w w' \<Longrightarrow> cache_wrote redis held w' = cache_wrote redis held w"
  by (simp add: undisturbed_def cache_wrote_def fun_eq_iff)

text \<open>Keeping what is there already changes nothing.\<close>

lemma kept_cache:
  "may_write held k v w w' \<Longrightarrow> redis w' = redis w \<Longrightarrow> lock_key k \<or> v \<in> redis w k \<Longrightarrow>
     cache_wrote redis held w' = cache_wrote redis held w"
  by (auto simp: may_write_def cache_wrote_def fun_eq_iff split: if_splits)

lemma group_Get_cases:
  assumes "groupcache_contract n ops waitETA redis held content" and "group_Get ops k w = (r, w')"
  obtains (memory) "undisturbed redis held w w'" "\<forall>v. \<not> lock_key k \<longrightarrow> r = Inr v \<longrightarrow> v \<in> held w k"
  | (filled) w1 where "GetterFunc n ops waitETA k w = Some (None, w1)" "r = Inr (content w1)"
      "may_write held k (content w1) w1 w'" "redis w' = redis w1"
  | (failed) e w1 where "GetterFunc n ops waitETA k w = Some (Some e, w1)" "undisturbed redis held w1 w'" "\<nexists>v. r = Inr v"
  using assms unfolding groupcache_contract_def by (metis not_None_eq)

lemma group_Get_honest:
  assumes h: "redis_honest ops redis held content" and c: "groupcache_contract n ops waitETA redis held content"
    and g: "group_Get ops k w = (r, w')"
  shows "cache_wrote redis held w' = cache_wrote redis held w \<and>
    (\<forall>v. \<not> lock_key k \<longrightarrow> r = Inr v \<longrightarrow> v \<in> cache_wrote redis held w k)"
  using c g
proof (cases rule: group_Get_cases)
  case memory
  then show ?thesis using undisturbed_cache by (fastforce simp: cache_wrote_def)
next
  case (filled w1)
  note u = GetterFunc_undisturbed [OF h filled(1)] and v = getter_nil_written [OF h filled(1)]
  have "lock_key k \<or> content w1 \<in> redis w1 k" using u v by (auto simp: undisturbed_def)
  from kept_cache [OF filled(3,4) this] undisturbed_cache [OF u] v filled(2) show ?thesis by (auto simp: cache_wrote_def)
next
  case (failed e w1)
  from undisturbed_trans [OF GetterFunc_undisturbed [OF h failed(1)] failed(2)] failed(3) show ?thesis
    by (simp add: undisturbed_cache)
qed

text \<open>C3. Groupcache is as honest as redis: with the getter of the code behind it, a cache that answers with
  groupcache answers for the key of an entry only with bytes that were set under this very key, and
  asking it sets nothing. This is what the runs of the service rely on, so the answers they replay are
  answers an engine gave, with groupcache in front or without.\<close>

theorem groupcache_honest:
  assumes "redis_honest ops redis held content" and "groupcache_contract n ops waitETA redis held content"
  shows "cache_honest ops (cache_wrote redis held)"
  unfolding cache_honest_def
proof (intro conjI allI impI)
  note h = redis_honestD [OF assms(1)] and c = assms(2) [unfolded groupcache_contract_def, THEN conjunct1, rule_format]
  show "may_write (cache_wrote redis held) k v w w'" if "redis_Set ops k v e w = (r, w')" for k v e w r w'
    using h(1) [OF that] by (intro may_write_cache(1) [of redis k v w w' held]) simp_all
  show "may_write (cache_wrote redis held) k v w w'" if "group_Set ops k v e w = (r, w')" for k v e w r w'
    using c [OF that] by (intro may_write_cache(2) [of held k v w w' redis]) simp_all
  show "cache_wrote redis held w' = cache_wrote redis held w" if "redis_SRem ops k m w = (r, w')" for k m w r w'
    using h(2) [OF that] by (rule undisturbed_cache)
  show "cache_wrote redis held w' = cache_wrote redis held w" if "reader_Get ops k w = (r, w')" for k w r w'
    using h(3) [OF that] by (intro undisturbed_cache) simp
  show "v \<in> cache_wrote redis held w k" if "reader_Get ops k w = (r, w')" "\<not> lock_key k" "r = Inr v" for k w r w' v
    using h(3) [OF that(1)] that(2,3) by (simp add: cache_wrote_def)
  show "cache_wrote redis held w' = cache_wrote redis held w" if "group_Get ops k w = (r, w')" for k w r w'
    using group_Get_honest [OF assms that] by blast
  show "v \<in> cache_wrote redis held w k" if "group_Get ops k w = (r, w')" "\<not> lock_key k" "r = Inr v" for k w r w' v
    using group_Get_honest [OF assms that(1)] that(2,3) by blast
qed

subsection \<open>A concrete world\<close>

text \<open>All writes to redis, the latest first, and the sink. Groupcache keeps nothing here and always asks its
  getter.\<close>

type_synonym getter_world = "write_log \<times> bytes"

definition getter_reply :: "getter_world \<Rightarrow> string \<Rightarrow> pipe_reply" where
  "getter_reply w k = \<lparr>r_get = (case map_of (fst w) k of None \<Rightarrow> Inl RedisNil | Some v \<Rightarrow> Inr v), r_ttl = -1, r_setnx = False\<rparr>"

definition redis_only :: "getter_world cache_ops" where
  "redis_only =
     \<lparr>redis_Set = \<lambda>k v e w. (None, ((k, v) # fst w, snd w)),
      reader_Get = \<lambda>k w. (case map_of (fst w) k of None \<Rightarrow> Inl RedisNil | Some v \<Rightarrow> Inr v, w),
      redis_SRem = \<lambda>k m w. (None, w),
      group_Get = \<lambda>k w. (Inl (ErrNotFound []), w),
      group_Set = \<lambda>k v e w. (None, w),
      redis_Close = \<lambda>w. (None, w),
      reader_Close = \<lambda>w. (None, w),
      server_Shutdown = \<lambda>w. (None, w),
      pipe_writer = \<lambda>k lock w. (getter_reply w k, w),
      pipe_reader = \<lambda>k w. (getter_reply w k, w),
      reader_GetInt64 = \<lambda>k w. (Inl RedisNil, w),
      sink_SetBytes = \<lambda>v e w. (None, (fst w, v)),
      time_Now = \<lambda>w. 0,
      time_Sleep = \<lambda>d w. w,
      ctx_Err = \<lambda>w. None\<rparr>"

definition getter_ops :: "getter_world cache_ops" where
  "getter_ops = redis_only\<lparr>group_Get := \<lambda>k w.
     (case GetterFunc 1 redis_only 0 k w of
        Some (None, w1) \<Rightarrow> (Inr (snd w1), w1)
      | Some (Some e, w1) \<Rightarrow> (Inl e, w1)
      | None \<Rightarrow> (Inl (ErrNotFound []), w))\<rparr>"

lemma getter_value:
  "ops = redis_only \<or> ops = getter_ops \<Longrightarrow> GetterFunc n ops 0 k w =
     (case map_of (fst w) k of
        None \<Rightarrow> Some (Some (ErrNotFound ''cache key not found in redis''), w)
      | Some v \<Rightarrow> Some (None, (fst w, v)))"
  by (auto simp: GetterFunc_def getter_first_read_def getter_ops_def redis_only_def getter_reply_def sink_def Let_def
      split: option.split)

lemma getter_group_Get:
  "group_Get getter_ops k w =
     (case map_of (fst w) k of
        None \<Rightarrow> (Inl (ErrNotFound ''cache key not found in redis''), w)
      | Some v \<Rightarrow> (Inr v, (fst w, v)))"
  by (simp add: getter_ops_def getter_value split: option.split)

theorem groupcache_honest_witness:
  "cache_honest getter_ops (cache_wrote (\<lambda>w. written (fst w)) (\<lambda>w k. {})) \<and>
     fst (group_Get getter_ops ''k'' ([(''k'', ''v'')], [])) = Inr ''v''"
proof
  show "cache_honest getter_ops (cache_wrote (\<lambda>w. written (fst w)) (\<lambda>w k. {}))"
  proof (rule groupcache_honest)
    show "redis_honest getter_ops (\<lambda>w. written (fst w)) (\<lambda>w k. {}) snd"
      by (auto simp: redis_honest_def getter_ops_def redis_only_def undisturbed_def may_write_def written_def fun_eq_iff
          getter_reply_def dest: map_of_SomeD split: option.splits)
    have "\<exists>res w1. GetterFunc 1 getter_ops 0 k w = Some (res, w1) \<and>
        (if res = None then r = Inr (snd w1) \<and> w' = w1 else w' = w1 \<and> (\<nexists>v. r = Inr v))"
      if "group_Get getter_ops k w = (r, w')" for k w r w'
      using that by (auto simp: getter_group_Get getter_value split: option.splits)
    then show "groupcache_contract 1 getter_ops 0 (\<lambda>w. written (fst w)) (\<lambda>w k. {}) snd"
      unfolding groupcache_contract_def
      by (intro conjI allI impI disjI2) (fastforce simp: getter_ops_def redis_only_def may_write_def undisturbed_def)+
  qed
  show "fst (group_Get getter_ops ''k'' ([(''k'', ''v'')], [])) = Inr ''v''"
    by (simp add: getter_group_Get)
qed

end
