(* ===== verification/Large_Ids.thy ===== *)
theory Large_Ids
  imports Concurrent_Queries
begin

text \<open>
  Numbers in the variables of a request. \<open>Variables\<close> of \<open>src/gql_parser.go\<close> are \<open>interface{}\<close> values, for which
  JSON numbers are decoded to float64, and the cache key of \<open>src/query_cache.go\<close> is made of these, while
  the engine is sent the body as it came. So a whole number of more than 53 bits can share its cache key with
  its neighbours.
\<close>

subsection \<open>Whole numbers as float64\<close>

fun bit_length :: "nat \<Rightarrow> nat" where
  "bit_length n = (if n = 0 then 0 else Suc (bit_length (n div 2)))"

declare bit_length.simps [simp del]

text \<open>The 53 leading bits of a number, rounded to nearest, ties to even; the bits below them are dropped.\<close>

definition round_bits :: "nat \<Rightarrow> nat \<Rightarrow> nat" where
  "round_bits s n =
     (let q = n div 2 ^ s; r = n mod 2 ^ s
      in if s = 0 then n else if 2 ^ (s - 1) < r \<or> r = 2 ^ (s - 1) \<and> odd q then q + 1 else q)"

text \<open>The bits of the float64 nearest to a whole number below 2 to the 1023: the exponent, biased by 1023, and the
  significand without its leading bit. A carry out of the significand goes into the exponent.\<close>

definition float64_of_nat :: "nat \<Rightarrow> u64" where
  "float64_of_nat n =
     (if n = 0 then 0
      else (let e = bit_length n - 1
            in if e \<le> 52 then word_of_nat ((e + 1022) * 2 ^ 52 + n * 2 ^ (52 - e))
               else word_of_nat ((e + 1022) * 2 ^ 52 + round_bits (e - 52) n)))"

lemma bit_length_eq: "2 ^ k \<le> n \<Longrightarrow> n < 2 ^ Suc k \<Longrightarrow> bit_length n = Suc k"
proof (induction k arbitrary: n)
  case 0
  then have "n = 1" by simp
  then show ?case by (simp add: bit_length.simps [of "Suc 0"] bit_length.simps [of 0])
next
  case (Suc k)
  then have "bit_length (n div 2) = Suc k" by (intro Suc.IH) auto
  moreover have "0 < n" using Suc.prems(1) zero_less_power [of "2 :: nat" "Suc k"] by linarith
  ultimately show ?case by (subst bit_length.simps) simp
qed

lemma float64_examples:
  "float64_of_nat 1 = 0x3FF0000000000000" "float64_of_nat 3 = 0x4008000000000000"
  "float64_of_nat (2 ^ 53) = 0x4340000000000000" "float64_of_nat (2 ^ 53 + 1) = 0x4340000000000000"
  "float64_of_nat (2 ^ 53 + 2) = 0x4340000000000001" "float64_of_nat (2 ^ 53 + 3) = 0x4340000000000002"
  by (simp_all add: float64_of_nat_def bit_length_eq [of 0] bit_length_eq [of 1] bit_length_eq [of 53] round_bits_def Let_def)


text \<open>Below 2 to the 53 the float64 is exact.\<close>

lemma bit_length_bounds: "0 < n \<Longrightarrow> 2 ^ (bit_length n - 1) \<le> n \<and> n < 2 ^ bit_length n \<and> 0 < bit_length n"
proof (induction n rule: bit_length.induct)
  case (1 n)
  show ?case
  proof (cases "n = 1")
    case True
    then show ?thesis by (simp add: bit_length.simps [of "Suc 0"] bit_length.simps [of 0])
  next
    case False
    then have "0 < n div 2" using 1(2) by simp
    with 1 have IH: "2 ^ (bit_length (n div 2) - 1) \<le> n div 2" "n div 2 < 2 ^ bit_length (n div 2)" "0 < bit_length (n div 2)"
      by auto
    have b: "bit_length n = Suc (bit_length (n div 2))" using 1(2) by (subst bit_length.simps) simp
    have "2 * 2 ^ (bit_length (n div 2) - 1) = (2 ^ bit_length (n div 2) :: nat)" using IH(3) by (cases "bit_length (n div 2)") simp_all
    then have "2 ^ bit_length (n div 2) \<le> n" "n < 2 * 2 ^ bit_length (n div 2)" using IH(1,2) by linarith+
    with IH show ?thesis by (simp add: b)
  qed
qed

lemma unat_word64: "x < 2 ^ 64 \<Longrightarrow> unat (word_of_nat x :: u64) = x"
  by (simp add: unsigned_of_nat take_bit_nat_eq_self)

lemma float64_exact:
  assumes "0 < n" and "n < 2 ^ 53"
  shows "\<exists>e \<le> 52. unat (float64_of_nat n) = (e + 1022) * 2 ^ 52 + n * 2 ^ (52 - e) \<and>
    2 ^ 52 \<le> n * 2 ^ (52 - e) \<and> n * 2 ^ (52 - e) < 2 ^ 53"
proof -
  let ?e = "bit_length n - 1"
  note b = bit_length_bounds [OF assms(1)]
  have "(2 :: nat) ^ ?e < 2 ^ 53" using b assms(2) by linarith
  then have "?e < 53" by (rule power_less_imp_less_exp [rotated]) simp
  then have e: "?e \<le> 52" by simp
  have "2 ^ ?e * 2 ^ (52 - ?e) \<le> n * 2 ^ (52 - ?e)" using b by simp
  then have lo: "2 ^ 52 \<le> n * 2 ^ (52 - ?e)" using e by (simp flip: power_add)
  have "n < 2 ^ Suc ?e" using b by simp
  then have "n * 2 ^ (52 - ?e) < 2 ^ Suc ?e * 2 ^ (52 - ?e)" by simp
  also have "\<dots> = 2 ^ 53" using e by (simp only: power_add [symmetric]) simp
  finally have hi: "n * 2 ^ (52 - ?e) < 2 ^ 53" .
  have "(?e + 1022) * 2 ^ 52 + n * 2 ^ (52 - ?e) < 2 ^ 64" using e hi by simp
  then have "unat (float64_of_nat n) = (?e + 1022) * 2 ^ 52 + n * 2 ^ (52 - ?e)"
    unfolding float64_of_nat_def Let_def if_not_P [OF less_imp_neq [OF assms(1), symmetric]] if_P [OF e] by (rule unat_word64)
  with e lo hi show ?thesis by blast
qed

lemma exponent_unique:
  assumes "(a + 1022) * k + x = (b + 1022) * k + (y :: nat)" and "k \<le> x" "x < 2 * k" "k \<le> y" "y < 2 * k"
  shows "a = b"
proof -
  have "((a + 1022) * k + x) div k = a + 1023" if "k \<le> x" "x < 2 * k" for a x
  proof -
    have z: "x = k + (x - k)" "x - k < k" using that by simp_all
    have "(a + 1022) * k + x = (a + 1022) * k + k + (x - k)" using z(1) by linarith
    also have "\<dots> = (a + 1023) * k + (x - k)" by (simp add: add_mult_distrib)
    finally show ?thesis using z(2) by simp
  qed
  from this [OF assms(2,3), of a] this [OF assms(4,5), of b] assms(1) show ?thesis by simp
qed

lemma float64_inject:
  assumes "n < 2 ^ 53" and "m < 2 ^ 53" and "float64_of_nat n = float64_of_nat m"
  shows "n = m"
proof -
  have zero: "k = 0" if "k < 2 ^ 53" "float64_of_nat k = 0" for k
    using float64_exact [of k] that by fastforce
  show ?thesis
  proof (cases "n = 0 \<or> m = 0")
    case True
    then show ?thesis using zero assms by (metis float64_of_nat_def)
  next
    case False
    then obtain e e' where e: "e \<le> 52" "unat (float64_of_nat n) = (e + 1022) * 2 ^ 52 + n * 2 ^ (52 - e)"
      "2 ^ 52 \<le> n * 2 ^ (52 - e)" "n * 2 ^ (52 - e) < 2 ^ 53"
      and e': "unat (float64_of_nat m) = (e' + 1022) * 2 ^ 52 + m * 2 ^ (52 - e')"
      "2 ^ 52 \<le> m * 2 ^ (52 - e')" "m * 2 ^ (52 - e') < 2 ^ 53"
      using float64_exact [of n] float64_exact [of m] assms(1,2) by blast
    have eq: "(e + 1022) * 2 ^ 52 + n * 2 ^ (52 - e) = (e' + 1022) * 2 ^ 52 + m * 2 ^ (52 - e')"
      using e(2) e'(1) unfolding assms(3) by (rule trans [OF sym])
    have "n * 2 ^ (52 - e) < 2 * 2 ^ 52" "m * 2 ^ (52 - e') < 2 * 2 ^ 52" using e(4) e'(3) by simp_all
    from exponent_unique [OF eq e(3) this(1) e'(2) this(2)] have "e = e'" .
    with eq show ?thesis by simp
  qed
qed

subsection \<open>Requests with an id\<close>

text \<open>\<open>JsoniterConfigFastest\<close> of \<open>src/main.go\<close>, the decoder of request bodies. Without \<open>UseNumber\<close>, which it leaves
  off, a number decoded to an \<open>interface{}\<close> is a float64; with it, the number would be kept as text.\<close>

record jsoniter_config =
  EscapeHTML :: bool
  MarshalFloatWith6Digits :: bool
  ObjectFieldMustBeSimpleString :: bool
  TagKey :: string
  UseNumber :: bool

definition JsoniterConfigFastest :: jsoniter_config where
  "JsoniterConfigFastest =
     \<lparr>EscapeHTML = False, MarshalFloatWith6Digits = True, ObjectFieldMustBeSimpleString = True, TagKey = ''json'',
      UseNumber = False\<rparr>"

definition decoded_number :: "jsoniter_config \<Rightarrow> nat \<Rightarrow> gval" where
  "decoded_number config n = (if UseNumber config then GStr (format_nat 10 n) else GFloat (float64_of_nat n))"

text \<open>The body of a request with one variable, a whole number, as the body parser decodes it.\<close>

definition id_request :: "bytes \<Rightarrow> bytes \<Rightarrow> nat \<Rightarrow> bytes \<Rightarrow> GraphQLRequest" where
  "id_request query name n op = \<lparr>Query = query, Variables = [(name, decoded_number JsoniterConfigFastest n)],
     OperationName = op\<rparr>"

text \<open>Below 2 to the 53 the requests are told apart.\<close>

lemma small_ids_differ:
  "n < 2 ^ 53 \<Longrightarrow> m < 2 ^ 53 \<Longrightarrow> id_request query name n op = id_request query name m op \<longleftrightarrow> n = m"
  using float64_inject by (auto simp: id_request_def decoded_number_def JsoniterConfigFastest_def)













end
