(* ===== verification/Benchmark_Proxy.thy ===== *)
theory Benchmark_Proxy
  imports Gostrings
begin

text \<open>
  The benchmark proxy, \<open>example/benchmark/proxy/main.go\<close>: the health endpoint that sleeps for as long as the
  query asks, and the proxy endpoint that tries again while the upstream answers 429. The upstream, the
  random source, the clock and the context are operations of an abstract world; durations are in
  microseconds.
\<close>

record proxy_answer =
  ans_code :: nat
  ans_body :: bytes

record agent_answer =
  ag_Parse :: "string option"
  ag_code :: nat
  ag_body :: bytes
  ag_errs :: "string list"

record 'w proxy_ops =
  px_Post :: "string \<Rightarrow> (string \<times> string) list \<Rightarrow> bytes \<Rightarrow> 'w \<Rightarrow> agent_answer \<times> 'w"
  px_Intn :: "nat \<Rightarrow> 'w \<Rightarrow> nat \<times> 'w"
  px_Sleep :: "int \<Rightarrow> 'w \<Rightarrow> 'w"
  px_Done :: "'w \<Rightarrow> bool"

subsection \<open>Start and shutdown\<close>

record bench_config =
  bc_ReadTimeout :: int
  bc_WriteTimeout :: int
  bc_ServerHeader :: string
  bc_Prefork :: bool

definition bench_settings :: bench_config where
  "bench_settings =
     \<lparr>bc_ReadTimeout = 20 * 1000000, bc_WriteTimeout = 20 * 1000000, bc_ServerHeader = ''App Runner Proxy Benchmark'',
      bc_Prefork = True\<rparr>"

text \<open>\<open>strconv.ParseBool\<close>, and whether \<open>main\<close> logs at the level of debugging.\<close>

definition ParseBool :: "string \<Rightarrow> bool option" where
  "ParseBool str =
     (if str \<in> {''1'', ''t'', ''T'', ''true'', ''TRUE'', ''True''} then Some True
      else if str \<in> {''0'', ''f'', ''F'', ''false'', ''FALSE'', ''False''} then Some False else None)"

definition bench_debugs :: "string \<Rightarrow> bool" where
  "bench_debugs DEBUG = (case ParseBool DEBUG of None \<Rightarrow> False | Some debugFlag \<Rightarrow> debugFlag)"

text \<open>The one clean-up operation and its time, and the time of the whole shutdown.\<close>

definition bench_shutdown :: "int \<times> (string \<times> int) list" where
  "bench_shutdown = (let shutdownTimeout = 30 * 1000000 in (shutdownTimeout, [(''http-server'', shutdownTimeout - 1 * 1000000)]))"

subsection \<open>The endpoints\<close>

text \<open>\<open>GET /health?sleep=N\<close>; \<open>Atoi\<close> is \<open>ParseInt(sleep, 10, 64)\<close>.\<close>

definition health_sleep :: "string \<Rightarrow> int" where
  "health_sleep sleep =
     (case Atoi sleep of
        Some sleepDuration \<Rightarrow> if sleepDuration > 0 then min sleepDuration 110000000 else 0
      | None \<Rightarrow> 0)"

definition health_endpoint :: "'w proxy_ops \<Rightarrow> string \<Rightarrow> 'w \<Rightarrow> proxy_answer \<times> 'w" where
  "health_endpoint ops sleep w =
     (\<lparr>ans_code = 200, ans_body = ''OK''\<rparr>, if health_sleep sleep > 0 then px_Sleep ops (health_sleep sleep) w else w)"

text \<open>The wait before try \<open>tries + 1\<close>, in microseconds.\<close>

definition retry_delay :: "nat \<Rightarrow> nat \<Rightarrow> int" where
  "retry_delay tries jitter = 1000 * (int tries * 10) + 1000 * int jitter"

text \<open>One try: an answer, or the world in which to try again. The first value of every request header is sent
  on; the framework lists no header without one.\<close>

definition proxy_try ::
  "'w proxy_ops \<Rightarrow> string \<Rightarrow> (string \<times> string list) list \<Rightarrow> bytes \<Rightarrow> nat \<Rightarrow> 'w \<Rightarrow> (proxy_answer \<times> 'w) + 'w" where
  "proxy_try ops url reqHeaders body tries w =
     (let (agent, w) = px_Post ops url (map (\<lambda>(k, v). (k, v ! 0)) reqHeaders) body w
      in if ag_Parse agent \<noteq> None then Inl (\<lparr>ans_code = 500, ans_body = ''Internal Server Error''\<rparr>, w)
         else if length (ag_errs agent) > 0
         then (if ag_errs agent ! 0 = ''timeout'' then Inl (\<lparr>ans_code = 504, ans_body = ''Upstream Timeout''\<rparr>, w)
               else Inl (\<lparr>ans_code = 500, ans_body = ''Internal Server Error''\<rparr>, w))
         else if ag_code agent = 429
         then (let (jitter, w) = px_Intn ops (300 + 30 * tries) w;
                   w = px_Sleep ops (retry_delay tries jitter) w
               in if px_Done ops w
                  then Inl (\<lparr>ans_code = 503, ans_body = ''Service Unavailable (context cancelled)''\<rparr>, w)
                  else Inr w)
         else Inl (\<lparr>ans_code = ag_code agent, ans_body = ag_body agent\<rparr>, w))"

text \<open>\<open>for tries := 0; tries < 99; tries++\<close>, by the tries that are left.\<close>

fun proxy_tries ::
  "nat \<Rightarrow> 'w proxy_ops \<Rightarrow> string \<Rightarrow> (string \<times> string list) list \<Rightarrow> bytes \<Rightarrow> 'w \<Rightarrow> proxy_answer \<times> 'w" where
  "proxy_tries 0 ops url reqHeaders body w =
     (\<lparr>ans_code = 503, ans_body = ''Service Unavailable (max retry reached)''\<rparr>, w)"
| "proxy_tries (Suc left) ops url reqHeaders body w =
     (case proxy_try ops url reqHeaders body (99 - Suc left) w of
        Inl answer \<Rightarrow> answer
      | Inr w \<Rightarrow> proxy_tries left ops url reqHeaders body w)"

definition proxy_endpoint ::
  "'w proxy_ops \<Rightarrow> string \<Rightarrow> (string \<times> string list) list \<Rightarrow> bytes \<Rightarrow> 'w \<Rightarrow> proxy_answer \<times> 'w" where
  "proxy_endpoint ops url reqHeaders body w = proxy_tries 99 ops url reqHeaders body w"

subsection \<open>Properties\<close>

text \<open>A count of the calls of the upstream, as a world of its own beside the given one.\<close>

definition counting :: "'w proxy_ops \<Rightarrow> ('w \<times> nat) proxy_ops" where
  "counting ops =
     \<lparr>px_Post = \<lambda>url hs body (w, n). (case px_Post ops url hs body w of (a, w') \<Rightarrow> (a, (w', Suc n))),
      px_Intn = \<lambda>k (w, n). (case px_Intn ops k w of (r, w') \<Rightarrow> (r, (w', n))),
      px_Sleep = \<lambda>d (w, n). (px_Sleep ops d w, n),
      px_Done = \<lambda>(w, n). px_Done ops w\<rparr>"

lemma try_counted:
  "proxy_try (counting ops) url hs body tries (w, n) =
     map_sum (\<lambda>(a, w'). (a, (w', Suc n))) (\<lambda>w'. (w', Suc n)) (proxy_try ops url hs body tries w)"
  by (auto simp: proxy_try_def counting_def Let_def split: prod.splits)

lemma tries_counted:
  "\<exists>k \<le> left. proxy_tries left (counting ops) url hs body (w, n) =
     (case proxy_tries left ops url hs body w of (a, w') \<Rightarrow> (a, (w', n + k)))"
proof (induction left arbitrary: w n)
  case (Suc left)
  show ?case
  proof (cases "proxy_try ops url hs body (99 - Suc left) w")
    case (Inl a)
    then show ?thesis by (intro exI [of _ 1]) (auto simp: try_counted split: prod.split)
  next
    case (Inr w')
    obtain k where "k \<le> left" and "proxy_tries left (counting ops) url hs body (w', Suc n) =
        (case proxy_tries left ops url hs body w' of (a, w'') \<Rightarrow> (a, (w'', Suc n + k)))"
      using Suc.IH [of w' "Suc n"] by blast
    with Inr show ?thesis by (intro exI [of _ "Suc k"]) (auto simp: try_counted split: prod.split)
  qed
qed simp

text \<open>The proxy endpoint answers after at most 99 calls of the upstream: counting the calls changes
  nothing else, and the count grows by at most 99.\<close>

theorem proxy_calls_bounded:
  "\<exists>k \<le> 99. proxy_endpoint (counting ops) url hs body (w, n) =
     (case proxy_endpoint ops url hs body w of (a, w') \<Rightarrow> (a, (w', n + k)))"
  unfolding proxy_endpoint_def by (rule tries_counted)

end
