(* ===== verification/Spec2Isabelle.thy ===== *)
theory Spec2Isabelle
  imports Gql Cache_Flow Concurrent_Queries Herd Local_Address Engine_Servers Log_Pipeline Contexts App Tracing Jwt Lifecycle
    Shutdown_Properties Group_Getter Large_Ids Benchmark_Proxy
begin

text \<open>
  graphql-engine-plus is a proxy in front of Hasura's graphql-engine: it tells mutations from queries,
  sends mutations to the primary engine and spreads queries over the primary and a read replica, and
  answers queries with the \<open>@cached\<close> directive from Redis, with groupcache in front of it. This library
  models its Go code, \<open>src/*.go\<close>, and proves what makes the parts correct.

  \<^bold>\<open>Theories and code.\<close>
  \<^item> \<open>Prelude\<close>: results (a value, a returned error, a run-time panic), slices and indices with their panics,
    64-bit signed wrap-around; the collection \<open>go_simps\<close>.
  \<^item> \<open>Gostrings\<close>: \<open>strconv\<close> and \<open>strings\<close> (\<open>FormatUint\<close>, \<open>Atoi\<close>, \<open>Split\<close>), with the locale \<open>key_format\<close> of
    unambiguous number formats, interpreted by base 36.
  \<^item> \<open>Regex\<close>: UTF-8 decoding and the leftmost-first matching of Go's \<open>regexp\<close> for the patterns the code
    uses. \<open>rx_run\<close> lists all matches in order of preference, \<open>rx_match\<close> is their declarative meaning.
  \<^item> \<open>Govalues\<close>: values decoded from JSON and how \<open>fmt.Sprint\<close> prints them.
  \<^item> \<open>Gql\<close>: \<open>gql_parser.go\<close>, the classification of requests and the time to live of the directive.
  \<^item> \<open>Fnv\<close>: \<open>hash/fnv\<close>, with the locales \<open>stream_hash\<close> and \<open>reversible_hash\<close>, interpreted by FNV-1a.
  \<^item> \<open>Transitions\<close>: reachable states of step relations, with the locales \<open>step_invariant\<close> and \<open>invariant\<close>,
    interpreted by the invariants of the concurrent parts, and \<open>running_down\<close> of the ones that reach a goal,
    interpreted by the log of the replica and by the shutdown.
  \<^item> \<open>CacheKey\<close>, \<open>Jwt\<close>: \<open>jwt_auth.go\<close> and \<open>CalculateCacheKey\<close>, \<open>CreateRedisKey\<close> of \<open>query_cache.go\<close>.
  \<^item> \<open>Http\<close>: the edge to Fiber; the calls on the request and the response are a list of effects.
  \<^item> \<open>Cache_Client\<close>, \<open>Cache_Properties\<close>: \<open>Get\<close>, \<open>Set\<close>, \<open>Close\<close> and the groupcache getter with its wait loop, of
    \<open>cache_service.go\<close>.
  \<^item> \<open>Envelope\<close>: \<open>SendCachedResponseBody\<close> and \<open>ReadResponseBodyAndSaveToCache\<close> of \<open>query_cache.go\<close>, the format
    of a cache entry, with the locale \<open>fixed_width_codec\<close>, interpreted by little-endian 64-bit lengths.
  \<^item> \<open>Config\<close>: \<open>config.go\<close>.
  \<^item> \<open>Handlers\<close>: \<open>fiber_graphql_handler.go\<close> and the handlers and routes of \<open>setupFiber\<close> in \<open>main.go\<close>.
  \<^item> \<open>Redis_Client\<close>: \<open>NewRedisCacheClient\<close> of \<open>cache_service.go\<close>, with the options of the cluster clients in a heap,
    and the goroutine that follows the groupcache cluster, as the step relation \<open>following\<close>. The port of the
    node addresses goes into a pattern: it is matched literally when it is made of plain characters, and is left
    to a parameter \<open>compile\<close>, the compiler of \<open>regexp\<close>, otherwise, which may panic.
  \<^item> \<open>Local_Address\<close>: \<open>net_ip.go\<close> and \<open>setupRedisClient\<close> of \<open>main.go\<close>.
  \<^item> \<open>Herd\<close>: the lock of the getter among any number of processes, as the step relation \<open>herd\<close>.
  \<^item> \<open>Contexts\<close>: Go's contexts, and \<open>WrapContextCancelByAnotherContext\<close> of \<open>otel_tracer.go\<close> with its goroutine, as
    the step relation \<open>ctx_step\<close>; the contexts of a query request.
  \<^item> \<open>Tracing\<close>: the rest of \<open>otel_tracer.go\<close>, the choice of the exporter and the carrier of the trace context.
  \<^item> \<open>Engine_Servers\<close>: \<open>graphql_engine_servers.go\<close>, the commands, the startup loops and the supervisor.
  \<^item> \<open>Log_Pipeline\<close>: the goroutines behind the log of the replica, as the step relation \<open>log_step\<close>.
  \<^item> \<open>App\<close>: \<open>setupFiber\<close> of \<open>main.go\<close> as a whole, its settings, middleware and routes, and the requests that
    arrive during the startup, as the step relation \<open>app_step\<close> over the contexts and the handlers.
  \<^item> \<open>Lifecycle\<close>: \<open>main\<close>, its contexts, its setup and its clean-up operations, and \<open>StartGraphqlEngineServers\<close> put
    together from its phases.
  \<^item> \<open>Shutdown\<close>, \<open>Shutdown_Properties\<close>: the running program, in which the supervisor with its polling of the engines, the
    goroutines of the processes, the one that polls the replica, the log of the replica, the HTTP server and the
    clean-up operation \<open>engine-servers\<close> interleave, over the contexts of \<open>main\<close>. The steps are \<open>own_step\<close>, what a goroutine
    does by itself; \<open>event_step\<close>, what the program does when something reaches it from outside, with the
    contexts it cancels and the ways it ends; and \<open>env_step\<close>, what happens around it.
  \<^item> \<open>Benchmark_Proxy\<close>: \<open>example/benchmark/proxy/main.go\<close>.
  \<^item> \<open>Service\<close>, \<open>Cache_Flow\<close>: properties of the endpoints, and what a failed upstream call makes no difference to.
  \<^item> \<open>Cache_Runs\<close>: an abstract memory of answers that the query handler refines; what a query writes to the cache,
    and what a later one with the same key is answered with.
  \<^item> \<open>Group_Getter\<close>: groupcache with the getter of the code behind it, which makes it as honest as redis.
  \<^item> \<open>Large_Ids\<close>: the decoding of whole numbers in the variables, and the answer for another id it can lead to.
  \<^item> \<open>Concurrent_Queries\<close>: requests on the GraphQL endpoints that interleave, as the step relation \<open>service_step\<close>.
  \<^item> \<open>Sim_World\<close>: a small concrete world in which the properties with hypotheses are applied.

  \<^bold>\<open>State and parameters.\<close> What is not under \<open>src/\<close> is a parameter: Redis,
  groupcache, the clock and the contexts are the record \<open>cache_ops\<close> over an abstract world, viper is
  \<open>viper_ops\<close>, the upstream servers, the JWT parser, the JSON codec, the printing of floats and the
  random source are fields of \<open>server_env\<close>. Their documented behaviour, where a property needs it, is a
  named predicate: \<open>clock_advances\<close>, \<open>json_codec\<close>, \<open>viper_laws\<close> (of the keys of
  \<open>config.go\<close> only, as viper's keys are case-insensitive), \<open>pool_laws\<close>,
  \<open>setnx_laws\<close>, \<open>startup_laws\<close>, \<open>context_laws\<close>, \<open>cache_honest\<close>,
  \<open>engines_apart\<close>, \<open>plus_law\<close>, \<open>header_laws\<close>, \<open>parse_laws\<close>,
  \<open>default_law\<close>, \<open>supervised\<close>, \<open>redis_honest\<close>,
  \<open>groupcache_contract\<close>, \<open>exit_law\<close>. Go's maps are lists in the order of one iteration, and
  the properties say when that order does not matter.

  \<^bold>\<open>What the lemmas show.\<close> Requests are told apart by their first word, and no request is taken
  for two kinds. The cache key does not depend on the order of headers and claims, on transport headers or on the
  lifetime of the token; when its computation panics is stated exactly, and how requests come to share a key. An entry is
  read back as it was made, and across two requests the second gets what the upstream call of the first left. The
  getter returns, and fills the sink with what was set under its key. A request reaches at most one engine, a mutation
  only the primary one, and the weight is a percentage. The lock of a missing key is handed out once per wait, the
  pool of a node follows what Redis lists, the startup loops end, and the only causes of a shutdown from inside are a
  failed \<open>Listen\<close> and a process that has ended. The query handler refines a memory of answers, so that in
  a run of the service every answer from the cache is what an engine call for the same key left with status 200: an
  answer of the engine, or, as the code does not look at the error before it saves, what a failed call left. While the
  startup is going on nothing is sent anywhere. A wrapped context ends with both contexts it was made of, the contexts
  of \<open>main\<close> end with the main one, and a shutdown waits for a startup that does not complete. When
  \<open>main\<close> has exited with the code of the clean-up its processes have ended, unless the shutdown ran out
  of its 30 seconds; nothing is claimed of the other ends, \<open>log.Fatal\<close> of the groupcache server, a panic
  in a handler and a process that cannot be started. The goroutines of a shutdown cannot go on for ever, and what it
  can be waiting for is listed: the startup, a process, and a log of the replica that nobody reads, which then holds
  it up for good; the supervisor may also be asleep, for a second. Otherwise it completes, and the log
  drains, as long as it is not cancelled and its lines are not too long. What each route can reach is stated, and that
  the metadata route can be led to a foreign host.

  \<^bold>\<open>Fuel.\<close> The wait loop of the getter takes fuel: with an advancing clock the nanoseconds left until the
  instant named by the lock are enough, and more fuel does not change the result (\<open>wait_loop_enough\<close>,
  \<open>wait_loop_more_fuel\<close>). The startup loops take fuel: one round for every 500 milliseconds until the
  deadline and two more are enough. The watch loop of the supervisor takes fuel and runs as long as no
  process ends; once one has ended two turns are enough.

  \<^bold>\<open>Interleaving.\<close> In \<open>service_step\<close> a query is three steps, the lookup, the call of
  the engine and the handling of its answer, and a call of the handler is shown to be a schedule of them; in
  \<open>app_step\<close>, which is about waiting, a handler is one step. The getter of groupcache among processes,
  the log pipeline, the contexts, the loop that follows the cluster and the whole shutdown are interleaved as well.
  The loop that follows the cluster is no part of the shutdown's steps, as it cancels no context and waits for no
  process. A read of the state of a process is one step there, although the code reads it without synchronisation.

  \<^bold>\<open>Not modelled.\<close> The text of log messages and the attributes of spans, which no behaviour
  depends on; the middleware of Fiber beyond its settings and the functions that make it skip requests; the pool and
  the protocol of groupcache; the accepting of connections; the check of the CORS domain, a parameter that refuses it
  or not; of the clean-up operations, which their library runs, what happens inside of those of the HTTP server and
  the tracer; the Python scripting server, a program of its own.
\<close>

end
